theory Spec2Isabelle
  imports Complex_Main "HOL-Library.AList"
begin


section \<open>JavaScript numbers\<close>

text \<open>
  The filter computes with JavaScript numbers and stores them into
  \<^verbatim>\<open>Uint8ClampedArray\<close>s. A finite double is a rational number, so a number is
  modelled as a rational or one of the three special values. The operations below are
  the exact ones; where the filter's results are not exactly representable, in the
  normalization of a window, every operation is followed by \<open>jsRound\<close>, the rounding
  to a double. Elsewhere the exact result is the double: the distances of
  \<open>getBestPattern\<close> are sums of integers (below \<open>2^53\<close> for any window of fewer than
  \<open>2^53 / 195075\<close> pixels), and the dithering computes multiples of 1/32 below \<open>2^14\<close>.
  Signed zeros are not modelled: every divisor the filter builds is \<open>max - min\<close>
  with \<open>min \<le> max\<close>, which is \<open>+0\<close> when it is zero.
\<close>

datatype jsnum = Num rat | PInf | NInf | NaN

fun jsNeg :: "jsnum \<Rightarrow> jsnum" where
  "jsNeg (Num a) = Num (- a)"
| "jsNeg PInf = NInf"
| "jsNeg NInf = PInf"
| "jsNeg NaN = NaN"

fun jsAdd :: "jsnum \<Rightarrow> jsnum \<Rightarrow> jsnum" where
  "jsAdd NaN _ = NaN"
| "jsAdd _ NaN = NaN"
| "jsAdd (Num a) (Num b) = Num (a + b)"
| "jsAdd PInf NInf = NaN"
| "jsAdd NInf PInf = NaN"
| "jsAdd PInf _ = PInf"
| "jsAdd NInf _ = NInf"
| "jsAdd _ PInf = PInf"
| "jsAdd _ NInf = NInf"

definition jsSub :: "jsnum \<Rightarrow> jsnum \<Rightarrow> jsnum" where
  "jsSub a b = jsAdd a (jsNeg b)"

text \<open>The sign of a number that is not NaN: \<open>-1\<close>, \<open>0\<close> or \<open>1\<close>.\<close>

fun jsSign :: "jsnum \<Rightarrow> int" where
  "jsSign (Num a) = (if a < 0 then - 1 else if a = 0 then 0 else 1)"
| "jsSign PInf = 1"
| "jsSign NInf = - 1"
| "jsSign NaN = 0"

definition signedInf :: "int \<Rightarrow> jsnum" where
  "signedInf sg = (if sg < 0 then NInf else if sg = 0 then NaN else PInf)"

fun jsMul :: "jsnum \<Rightarrow> jsnum \<Rightarrow> jsnum" where
  "jsMul NaN _ = NaN"
| "jsMul _ NaN = NaN"
| "jsMul (Num a) (Num b) = Num (a * b)"
| "jsMul a b = signedInf (jsSign a * jsSign b)"

fun jsDiv :: "jsnum \<Rightarrow> jsnum \<Rightarrow> jsnum" where
  "jsDiv NaN _ = NaN"
| "jsDiv _ NaN = NaN"
| "jsDiv (Num a) (Num b) = (if b = 0 then signedInf (jsSign (Num a)) else Num (a / b))"
| "jsDiv (Num a) _ = Num 0"
| "jsDiv PInf (Num b) = (if b < 0 then NInf else PInf)"
| "jsDiv NInf (Num b) = (if b < 0 then PInf else NInf)"
| "jsDiv _ _ = NaN"

text \<open>\<^verbatim>\<open>a < b\<close>: false as soon as one side is NaN.\<close>

fun jsLt :: "jsnum \<Rightarrow> jsnum \<Rightarrow> bool" where
  "jsLt NaN _ = False"
| "jsLt _ NaN = False"
| "jsLt (Num a) (Num b) = (a < b)"
| "jsLt _ NInf = False"
| "jsLt PInf _ = False"
| "jsLt NInf _ = True"
| "jsLt _ PInf = True"

text \<open>\<^verbatim>\<open>Math.max(...xs)\<close> and \<^verbatim>\<open>Math.min(...xs)\<close>: \<open>-Infinity\<close> and \<open>Infinity\<close> on no
  argument, NaN as soon as one argument is NaN.\<close>

fun jsMax :: "jsnum \<Rightarrow> jsnum \<Rightarrow> jsnum" where
  "jsMax NaN _ = NaN"
| "jsMax _ NaN = NaN"
| "jsMax a b = (if jsLt a b then b else a)"

fun jsMin :: "jsnum \<Rightarrow> jsnum \<Rightarrow> jsnum" where
  "jsMin NaN _ = NaN"
| "jsMin _ NaN = NaN"
| "jsMin a b = (if jsLt b a then b else a)"

definition mathMax :: "jsnum list \<Rightarrow> jsnum" where
  "mathMax xs = foldl jsMax NInf xs"

definition mathMin :: "jsnum list \<Rightarrow> jsnum" where
  "mathMin xs = foldl jsMin PInf xs"

text \<open>Rounding to the nearest integer, ties to even.\<close>

definition roundHalfEven :: "rat \<Rightarrow> int" where
  "roundHalfEven q =
     (let f = \<lfloor>q\<rfloor> in
      if q - of_int f < 1 / 2 then f
      else if 1 / 2 < q - of_int f then f + 1
      else if even f then f else f + 1)"

text \<open>
  Rounding to a double (IEEE 754 binary64: a significand of 53 bits, round to nearest,
  ties to even). Scaling by 2 is exact, so a positive number is scaled into
  \<open>[2^52, 2^53)\<close>, rounded to an integer there and scaled back. The exponent is not
  bounded: overflow and subnormal numbers are not modelled, the numbers of the
  normalization (sums and products of bytes and of the three luma coefficients, their
  differences and quotients) are far from both.
\<close>

function roundPositive :: "rat \<Rightarrow> rat" where
  "roundPositive q =
     (if q \<le> 0 then 0
      else if 2 ^ 53 \<le> q then 2 * roundPositive (q / 2)
      else if q < 2 ^ 52 then roundPositive (2 * q) / 2
      else of_int (roundHalfEven q))"
  by pat_completeness auto

termination
proof (relation "measures [\<lambda>q. nat \<lceil>2 ^ 52 / q\<rceil>, \<lambda>q. nat \<lfloor>q\<rfloor>]")
  show "wf (measures [\<lambda>q. nat \<lceil>2 ^ 52 / q\<rceil>, \<lambda>q :: rat. nat \<lfloor>q\<rfloor>])" by simp
next
  fix q :: rat
  assume a: "\<not> q \<le> 0" "2 ^ 53 \<le> q"
  have "2 ^ 52 / q \<le> 1" "0 < 2 ^ 52 / q" using a by (simp_all add: field_simps)
  then have c1: "\<lceil>2 ^ 52 / q\<rceil> = 1" by (simp add: ceiling_eq_iff)
  have "2 ^ 52 / (q / 2) \<le> 1" "0 < 2 ^ 52 / (q / 2)" using a by (simp_all add: field_simps)
  then have c2: "\<lceil>2 ^ 52 / (q / 2)\<rceil> = 1" by (simp add: ceiling_eq_iff)
  have "\<lfloor>q / 2\<rfloor> < \<lfloor>q\<rfloor>" using a by (simp add: floor_less_iff le_floor_iff) linarith
  moreover have "0 < \<lfloor>q\<rfloor>" using a by (simp add: floor_less_iff le_floor_iff)
  ultimately show "(q / 2, q) \<in> measures [\<lambda>q. nat \<lceil>2 ^ 52 / q\<rceil>, \<lambda>q. nat \<lfloor>q\<rfloor>]"
    using c1 c2 by simp
next
  fix q :: rat
  assume a: "\<not> q \<le> 0" "\<not> 2 ^ 53 \<le> q" "q < 2 ^ 52"
  define x where "x = 2 ^ 52 / q"
  have x: "1 < x" using a by (simp add: x_def field_simps)
  have h: "2 ^ 52 / (2 * q) = x / 2" by (simp add: x_def)
  have "x / 2 \<le> of_int (\<lceil>x\<rceil> - 1)"
  proof -
    have "2 \<le> \<lceil>x\<rceil>" using x by linarith
    then have "(2 :: rat) \<le> of_int \<lceil>x\<rceil>"
      using of_int_le_iff[of 2 "\<lceil>x\<rceil>", where 'a = rat] by simp
    moreover have "x \<le> of_int \<lceil>x\<rceil>" by simp
    ultimately have "x \<le> 2 * of_int \<lceil>x\<rceil> - 2" by linarith
    then show ?thesis by simp
  qed
  then have "\<lceil>x / 2\<rceil> \<le> \<lceil>x\<rceil> - 1" by (simp only: ceiling_le_iff)
  moreover have "0 < \<lceil>x\<rceil>" using x by linarith
  ultimately have "nat \<lceil>x / 2\<rceil> < nat \<lceil>x\<rceil>" by simp
  then have "nat \<lceil>2 ^ 52 / (2 * q)\<rceil> < nat \<lceil>2 ^ 52 / q\<rceil>" unfolding h x_def .
  then show "(2 * q, q) \<in> measures [\<lambda>q. nat \<lceil>2 ^ 52 / q\<rceil>, \<lambda>q. nat \<lfloor>q\<rfloor>]"
    by simp
qed

declare roundPositive.simps [simp del]

definition roundDouble :: "rat \<Rightarrow> rat" where
  "roundDouble q = (if q < 0 then - roundPositive (- q) else roundPositive q)"

fun jsRound :: "jsnum \<Rightarrow> jsnum" where
  "jsRound (Num q) = Num (roundDouble q)"
| "jsRound x = x"

text \<open>The conversion of a store into a \<^verbatim>\<open>Uint8ClampedArray\<close> (ToUint8Clamp): NaN becomes
  0, the value is clamped to 0..255 and rounded to the nearest integer, ties to even.\<close>

fun toUint8Clamp :: "jsnum \<Rightarrow> nat" where
  "toUint8Clamp NaN = 0"
| "toUint8Clamp PInf = 255"
| "toUint8Clamp NInf = 0"
| "toUint8Clamp (Num q) =
     (if q \<le> 0 then 0 else if 255 \<le> q then 255 else nat (roundHalfEven q))"

definition byteNum :: "nat \<Rightarrow> jsnum" where
  "byteNum b = Num (of_nat b)"

section \<open>Pixels and canvases\<close>

text \<open>
  \<^verbatim>\<open>ImageData.data\<close> holds four bytes per pixel (red, green, blue, alpha), row by row;
  the model groups them, so that the source's \<^verbatim>\<open>data[dataIndex + 0 .. 3]\<close> with
  \<^verbatim>\<open>dataIndex += 4\<close> is one element of a pixel list.
\<close>

datatype pixel = RGBA (red: nat) (green: nat) (blue: nat) (alpha: nat)

type_synonym rgb = "nat \<times> nat \<times> nat"

definition opaquePixel :: "rgb \<Rightarrow> pixel" where
  "opaquePixel c = (case c of (r, g, b) \<Rightarrow> RGBA r g b 255)"

text \<open>
  A 2D canvas context is its size and its backing store. The model keeps the four bytes
  of every pixel as they were written (a browser's premultiplied storage of pixels that
  are not opaque is not modelled). Reading outside the canvas gives transparent black,
  writing outside is dropped.
\<close>

record Canvas =
  cwidth :: nat
  cheight :: nat
  pixelAt :: "nat \<Rightarrow> nat \<Rightarrow> pixel"

definition inCanvas :: "Canvas \<Rightarrow> int \<Rightarrow> int \<Rightarrow> bool" where
  "inCanvas c x y \<longleftrightarrow> 0 \<le> x \<and> x < int (cwidth c) \<and> 0 \<le> y \<and> y < int (cheight c)"

definition getPixel :: "Canvas \<Rightarrow> int \<Rightarrow> int \<Rightarrow> pixel" where
  "getPixel c x y = (if inCanvas c x y then pixelAt c (nat x) (nat y) else RGBA 0 0 0 0)"

definition putPixel :: "Canvas \<Rightarrow> int \<Rightarrow> int \<Rightarrow> pixel \<Rightarrow> Canvas" where
  "putPixel c x y px =
     (if inCanvas c x y then c\<lparr>pixelAt := (\<lambda>i j. if i = nat x \<and> j = nat y then px else pixelAt c i j)\<rparr>
      else c)"

datatype error = TypeError | IndexSizeError

text \<open>\<^verbatim>\<open>getImageData(x, y, w, h).data\<close>, row by row; a rectangle without area raises
  IndexSizeError. The source's \<^verbatim>\<open>getImageData(x, y, 1, 1).data\<close> is \<open>getPixel\<close>.\<close>

definition getImageData :: "Canvas \<Rightarrow> int \<Rightarrow> int \<Rightarrow> nat \<Rightarrow> nat \<Rightarrow> error + pixel list" where
  "getImageData c x y w h =
     (if w = 0 \<or> h = 0 then Inl IndexSizeError
      else Inr (concat (map (\<lambda>j. map (\<lambda>i. getPixel c (x + int i) (y + int j)) [0..<w]) [0..<h])))"

text \<open>\<^verbatim>\<open>fillRect(x, y, w, h)\<close> with an opaque fill style.\<close>

definition fillRect :: "Canvas \<Rightarrow> int \<Rightarrow> int \<Rightarrow> nat \<Rightarrow> nat \<Rightarrow> rgb \<Rightarrow> Canvas" where
  "fillRect c x y w h col =
     c\<lparr>pixelAt := (\<lambda>i j.
          if x \<le> int i \<and> int i < x + int w \<and> y \<le> int j \<and> int j < y + int h
             \<and> i < cwidth c \<and> j < cheight c
          then opaquePixel col else pixelAt c i j)\<rparr>"


section \<open>Tones, palettes and patterns\<close>

text \<open>
  The modules \<^verbatim>\<open>../tones\<close> and \<^verbatim>\<open>../palettes\<close> are imported by the filter; what they
  export is a parameter of the model. An object is the list of its entries in key
  order (keys distinct), \<^verbatim>\<open>tones[t].bitmap\<close> is a list of rows of numbers, read for
  truthiness. \<open>rgbOf\<close> is the canvas's resolution of a fill style to the bytes it
  paints (the palettes hold opaque CSS colours).
\<close>

record Config =
  tonePeriod :: nat
  tones :: "(string \<times> nat list list) list"
  palettes :: "(string \<times> string list) list"
  rgbOf :: "string \<Rightarrow> rgb"

record Pattern =
  toneType :: string
  backgroundColor :: string
  foregroundColor :: string
  offsetY :: nat
  offsetX :: nat

text \<open>\<^verbatim>\<open>const colors = Object.values(palettes).flat()\<close> and
  \<^verbatim>\<open>const tonePeriodRange = [...Array(tonePeriod).keys()]\<close>.\<close>

definition colors :: "Config \<Rightarrow> string list" where
  "colors cfg = concat (map snd (palettes cfg))"

definition tonePeriodRange :: "Config \<Rightarrow> nat list" where
  "tonePeriodRange cfg = [0..<tonePeriod cfg]"

text \<open>\<^verbatim>\<open>palette[0]\<close> used as a colour: \<^verbatim>\<open>undefined\<close> on an empty palette, which as a
  property key is the string \<^verbatim>\<open>"undefined"\<close>.\<close>

definition firstColor :: "string list \<Rightarrow> string" where
  "firstColor palette = (case palette of [] \<Rightarrow> ''undefined'' | c # _ \<Rightarrow> c)"

text \<open>\<^verbatim>\<open>Object.fromEntries\<close>: a key that comes again keeps its place and takes the later
  value.\<close>

definition objectFromEntries :: "('k \<times> 'v) list \<Rightarrow> ('k \<times> 'v) list" where
  "objectFromEntries es = foldl (\<lambda>obj (k, v). AList.update k v obj) [] es"

definition paletteFromLightness :: "Config \<Rightarrow> (string \<times> string list) list" where
  "paletteFromLightness cfg =
     objectFromEntries (map (\<lambda>palette. (firstColor palette, palette)) (map snd (palettes cfg)))"

text \<open>\<^verbatim>\<open>palettes.light[0]\<close> and \<^verbatim>\<open>palettes.dark[0]\<close>.\<close>

definition paletteAnchor :: "Config \<Rightarrow> string \<Rightarrow> error + string" where
  "paletteAnchor cfg name =
     (case map_of (palettes cfg) name of
        None \<Rightarrow> Inl TypeError
      | Some palette \<Rightarrow> Inr (firstColor palette))"

text \<open>\<^verbatim>\<open>tone.bitmap[i][j]\<close> as a condition: a missing row raises, a missing entry is
  \<^verbatim>\<open>undefined\<close> and so false.\<close>

definition bitmapAt :: "nat list list \<Rightarrow> nat \<Rightarrow> nat \<Rightarrow> error + bool" where
  "bitmapAt bitmap i j =
     (if i < length bitmap
      then Inr (j < length (bitmap ! i) \<and> bitmap ! i ! j \<noteq> 0)
      else Inl TypeError)"

section \<open>The state of the module and its monad\<close>

text \<open>
  \<open>patternImageDataCache\<close> is the nested object of the source, as a map from the five
  parts of its key; \<open>patternCanvas\<close> is the canvas behind \<^verbatim>\<open>patternContext\<close>.
  \<open>searchLog\<close> is a ghost field: \<open>getBestPattern\<close> appends its arguments to it and
  nothing reads it.
\<close>

record FilterState =
  patternImageDataCache :: "Pattern \<Rightarrow> pixel list option"
  patternCanvas :: Canvas
  searchLog :: "(pixel list \<times> Pattern list) list"

type_synonym 'a filterM = "FilterState \<Rightarrow> (error + 'a) \<times> FilterState"

definition returnM :: "'a \<Rightarrow> 'a filterM" where
  "returnM v = (\<lambda>s. (Inr v, s))"

definition throwM :: "error \<Rightarrow> 'a filterM" where
  "throwM e = (\<lambda>s. (Inl e, s))"

definition bindM :: "'a filterM \<Rightarrow> ('a \<Rightarrow> 'b filterM) \<Rightarrow> 'b filterM" where
  "bindM m f = (\<lambda>s. case m s of (Inl e, s') \<Rightarrow> (Inl e, s') | (Inr v, s') \<Rightarrow> f v s')"

definition liftE :: "error + 'a \<Rightarrow> 'a filterM" where
  "liftE r = (case r of Inl e \<Rightarrow> throwM e | Inr v \<Rightarrow> returnM v)"

text \<open>A loop over a list that updates local variables \<open>acc\<close>.\<close>

primrec foldM :: "('b \<Rightarrow> 'a \<Rightarrow> 'b filterM) \<Rightarrow> 'a list \<Rightarrow> 'b \<Rightarrow> 'b filterM" where
  "foldM f [] acc = returnM acc"
| "foldM f (x # xs) acc = bindM (f acc x) (foldM f xs)"

definition forEachM :: "'a list \<Rightarrow> ('a \<Rightarrow> unit filterM) \<Rightarrow> unit filterM" where
  "forEachM xs f = foldM (\<lambda>_ x. f x) xs ()"

primrec mapE :: "('a \<Rightarrow> error + 'b) \<Rightarrow> 'a list \<Rightarrow> error + 'b list" where
  "mapE f [] = Inr []"
| "mapE f (x # xs) =
     (case f x of
        Inl e \<Rightarrow> Inl e
      | Inr v \<Rightarrow> (case mapE f xs of Inl e \<Rightarrow> Inl e | Inr vs \<Rightarrow> Inr (v # vs)))"

section \<open>getPatternImageData\<close>

text \<open>
  \<^verbatim>\<open>patternImageDataCache[toneType][backgroundColor][foregroundColor][offsetY][offsetX]\<close>
  raises a TypeError when one of its first four steps is \<^verbatim>\<open>undefined\<close>: the nested
  object has a slot for every tone, every pair of \<open>colors\<close> and every row offset below
  the period.
\<close>

definition cacheSlotExists :: "Config \<Rightarrow> Pattern \<Rightarrow> bool" where
  "cacheSlotExists cfg p \<longleftrightarrow>
     toneType p \<in> set (map fst (tones cfg)) \<and>
     backgroundColor p \<in> set (colors cfg) \<and>
     foregroundColor p \<in> set (colors cfg) \<and>
     offsetY p < tonePeriod cfg"

text \<open>One step of the two nested \<^verbatim>\<open>forEach\<close> loops: choose the fill style, fill one
  pixel of the pattern canvas.\<close>

definition fillPatternPixel :: "Config \<Rightarrow> nat list list \<Rightarrow> Pattern \<Rightarrow> nat \<Rightarrow> nat \<Rightarrow> unit filterM" where
  "fillPatternPixel cfg bitmap p y x =
     bindM (liftE (bitmapAt bitmap ((y + offsetY p) mod tonePeriod cfg)
                                   ((x + offsetX p) mod tonePeriod cfg)))
       (\<lambda>isForeground s.
          (Inr (), s\<lparr>patternCanvas :=
             fillRect (patternCanvas s) (int x) (int y) 1 1
               (rgbOf cfg (if isForeground then foregroundColor p else backgroundColor p))\<rparr>))"

definition getPatternImageData :: "Config \<Rightarrow> Pattern \<Rightarrow> pixel list filterM" where
  "getPatternImageData cfg p =
     (\<lambda>s. if \<not> cacheSlotExists cfg p then (Inl TypeError, s)
          else (case patternImageDataCache s p of
                  Some cachedPatternImageData \<Rightarrow> (Inr cachedPatternImageData, s)
                | None \<Rightarrow>
                    (case map_of (tones cfg) (toneType p) of
                       None \<Rightarrow> (Inl TypeError, s)
                     | Some bitmap \<Rightarrow>
                         bindM (forEachM (tonePeriodRange cfg) (\<lambda>y.
                                  forEachM (tonePeriodRange cfg) (\<lambda>x.
                                    fillPatternPixel cfg bitmap p y x)))
                           (\<lambda>_. bindM (\<lambda>s'. liftE (getImageData (patternCanvas s') 0 0
                                                     (tonePeriod cfg) (tonePeriod cfg)) s')
                             (\<lambda>patternImageData s'.
                                (Inr patternImageData,
                                 s'\<lparr>patternImageDataCache :=
                                      (patternImageDataCache s')(p \<mapsto> patternImageData)\<rparr>))) s)))"

section \<open>getBestPattern\<close>

text \<open>\<^verbatim>\<open>(data[i] - patternImageData.data[i]) ** 2\<close>; past the end of the tile the read
  is \<^verbatim>\<open>undefined\<close> and the result NaN.\<close>

definition channelDistance :: "nat \<Rightarrow> nat option \<Rightarrow> jsnum" where
  "channelDistance d t =
     (case t of
        None \<Rightarrow> NaN
      | Some v \<Rightarrow> (let diff = jsSub (byteNum d) (byteNum v) in jsMul diff diff))"

definition pixelDistance :: "pixel \<Rightarrow> pixel option \<Rightarrow> jsnum" where
  "pixelDistance d t =
     jsAdd (jsAdd (channelDistance (red d) (map_option red t))
                  (channelDistance (green d) (map_option green t)))
           (channelDistance (blue d) (map_option blue t))"

definition nthOpt :: "'a list \<Rightarrow> nat \<Rightarrow> 'a option" where
  "nthOpt xs k = (if k < length xs then Some (xs ! k) else None)"

text \<open>The \<^verbatim>\<open>for\<close> loop over the window: \<open>distance\<close> is its local variable.\<close>

definition patternDistance :: "Config \<Rightarrow> pixel list \<Rightarrow> Pattern \<Rightarrow> jsnum filterM" where
  "patternDistance cfg data p =
     foldM (\<lambda>distance (k, px).
              if alpha px \<noteq> 255 then returnM distance
              else bindM (getPatternImageData cfg p) (\<lambda>patternImageData.
                     returnM (jsAdd distance (pixelDistance px (nthOpt patternImageData k)))))
           (enumerate 0 data) (Num 0)"

text \<open>The result is \<^verbatim>\<open>undefined\<close> (\<open>None\<close>) on an empty list of patterns.\<close>

definition getBestPattern :: "Config \<Rightarrow> pixel list \<Rightarrow> Pattern list \<Rightarrow> Pattern option filterM" where
  "getBestPattern cfg data patterns =
     bindM (\<lambda>s. (Inr (), s\<lparr>searchLog := searchLog s @ [(data, patterns)]\<rparr>))
       (\<lambda>_. bindM (foldM (\<lambda>(bestPattern, bestPatternDistance) pattern.
                      bindM (patternDistance cfg data pattern) (\<lambda>distance.
                        returnM (if jsLt distance bestPatternDistance
                                 then (Some pattern, distance)
                                 else (bestPattern, bestPatternDistance))))
                    patterns
                    (case patterns of [] \<Rightarrow> None | p # _ \<Rightarrow> Some p, PInf))
               (\<lambda>(bestPattern, _). returnM bestPattern))"

section \<open>applyMibaeFilter\<close>

subsection \<open>Window normalization\<close>

text \<open>\<^verbatim>\<open>r * 0.299 + g * 0.587 + b * 0.114\<close> on three bytes: the three literals are doubles,
  and each product and each sum is rounded.\<close>

definition luma :: "nat \<Rightarrow> nat \<Rightarrow> nat \<Rightarrow> rat" where
  "luma r g b =
     roundDouble (roundDouble (roundDouble (of_nat r * roundDouble (299 / 1000))
                               + roundDouble (of_nat g * roundDouble (587 / 1000)))
                  + roundDouble (of_nat b * roundDouble (114 / 1000)))"

text \<open>The first loop over \<open>normalizedData\<close>: an opaque pixel gets its luma in the three
  colour channels (converted by the store), and the luma itself is pushed to
  \<open>lightnesses\<close>.\<close>

fun grayscalePass :: "pixel list \<Rightarrow> pixel list \<times> jsnum list" where
  "grayscalePass [] = ([], [])"
| "grayscalePass (px # rest) =
     (let (normalizedData, lightnesses) = grayscalePass rest in
      if alpha px \<noteq> 255 then (px # normalizedData, lightnesses)
      else (let average = Num (luma (red px) (green px) (blue px));
                v = toUint8Clamp average
            in (RGBA v v v (alpha px) # normalizedData, average # lightnesses)))"

text \<open>The second loop: an opaque pixel is rescaled between the two extremes. \<open>rescaled\<close>
  is the value of \<^verbatim>\<open>((v - minLightness) * 255) / (maxLightness - minLightness)\<close>, with no
  test of the divisor, and \<open>rescale\<close> what the store into the array makes of it.\<close>

definition rescaled :: "jsnum \<Rightarrow> jsnum \<Rightarrow> nat \<Rightarrow> jsnum" where
  "rescaled minLightness maxLightness v =
     jsRound (jsDiv (jsRound (jsMul (jsRound (jsSub (byteNum v) minLightness)) (Num 255)))
                    (jsRound (jsSub maxLightness minLightness)))"

definition rescale :: "jsnum \<Rightarrow> jsnum \<Rightarrow> nat \<Rightarrow> nat" where
  "rescale minLightness maxLightness v = toUint8Clamp (rescaled minLightness maxLightness v)"

definition rescalePass :: "jsnum \<Rightarrow> jsnum \<Rightarrow> pixel list \<Rightarrow> pixel list" where
  "rescalePass minLightness maxLightness normalizedData =
     map (\<lambda>px. if alpha px \<noteq> 255 then px
               else (let v = rescale minLightness maxLightness (red px)
                     in RGBA v v v (alpha px)))
         normalizedData"

definition normalizeWindow :: "pixel list \<Rightarrow> pixel list" where
  "normalizeWindow windowData =
     (let (normalizedData, lightnesses) = grayscalePass windowData;
          maxLightness = mathMax lightnesses;
          minLightness = mathMin lightnesses
      in rescalePass minLightness maxLightness normalizedData)"

subsection \<open>Window position and phase offsets\<close>

text \<open>\<^verbatim>\<open>a % b\<close> for \<open>b \<noteq> 0\<close>: the remainder of the division truncated towards zero.\<close>

definition truncate :: "rat \<Rightarrow> int" where
  "truncate q = (if q < 0 then - \<lfloor>- q\<rfloor> else \<lfloor>q\<rfloor>)"

definition jsRemainder :: "rat \<Rightarrow> rat \<Rightarrow> rat" where
  "jsRemainder a b = a - b * of_int (truncate (a / b))"

text \<open>\<^verbatim>\<open>const beginX = x - tonePeriod / 2\<close> and
  \<^verbatim>\<open>const offsetX = Math.abs(beginX % tonePeriod)\<close>; the same for \<open>y\<close>.\<close>

definition windowBegin :: "Config \<Rightarrow> nat \<Rightarrow> rat" where
  "windowBegin cfg x = of_nat x - of_nat (tonePeriod cfg) / 2"

definition phaseOffset :: "Config \<Rightarrow> nat \<Rightarrow> rat" where
  "phaseOffset cfg x = \<bar>jsRemainder (windowBegin cfg x) (of_nat (tonePeriod cfg))\<bar>"

text \<open>The offset as an index, exact when the period is even.\<close>

definition offsetIndex :: "Config \<Rightarrow> nat \<Rightarrow> nat" where
  "offsetIndex cfg x = nat \<lfloor>phaseOffset cfg x\<rfloor>"

text \<open>
  The offset as the pattern of a cell carries it. With an odd period the offsets of the
  source are not integers, and \<^verbatim>\<open>[offsetY]\<close> on the array of the cache, which has the
  indices below the period, is \<^verbatim>\<open>undefined\<close>: every lookup of such a pattern raises a
  TypeError. A pattern of the model carries indices, and carries for such an offset
  the index \<open>tonePeriod\<close>, for which the lookup does the same.
\<close>

definition patternOffset :: "Config \<Rightarrow> nat \<Rightarrow> nat" where
  "patternOffset cfg x =
     (if phaseOffset cfg x = of_nat (offsetIndex cfg x) then offsetIndex cfg x else tonePeriod cfg)"

subsection \<open>The five searches of one cell\<close>

text \<open>\<^verbatim>\<open>const { field } = getBestPattern(...)\<close>: destructuring \<^verbatim>\<open>undefined\<close> raises.\<close>

definition bestOf :: "Config \<Rightarrow> pixel list \<Rightarrow> Pattern list \<Rightarrow> Pattern filterM" where
  "bestOf cfg data patterns =
     bindM (getBestPattern cfg data patterns)
       (\<lambda>best. case best of None \<Rightarrow> throwM TypeError | Some p \<Rightarrow> returnM p)"

definition mkPattern :: "string \<Rightarrow> string \<Rightarrow> string \<Rightarrow> nat \<Rightarrow> nat \<Rightarrow> Pattern" where
  "mkPattern t bg fg oy ox =
     \<lparr>toneType = t, backgroundColor = bg, foregroundColor = fg, offsetY = oy, offsetX = ox\<rparr>"

definition tonePatterns :: "Config \<Rightarrow> nat \<Rightarrow> nat \<Rightarrow> error + Pattern list" where
  "tonePatterns cfg oy ox =
     mapE (\<lambda>t. case paletteAnchor cfg ''light'' of
                 Inl e \<Rightarrow> Inl e
               | Inr light \<Rightarrow>
                   (case paletteAnchor cfg ''dark'' of
                      Inl e \<Rightarrow> Inl e
                    | Inr dark \<Rightarrow> Inr (mkPattern t light dark oy ox)))
          (map fst (tones cfg))"

definition backgroundPatterns :: "Config \<Rightarrow> string \<Rightarrow> string list \<Rightarrow> nat \<Rightarrow> nat \<Rightarrow> error + Pattern list" where
  "backgroundPatterns cfg t candidates oy ox =
     mapE (\<lambda>bg. case paletteAnchor cfg ''dark'' of
                  Inl e \<Rightarrow> Inl e
                | Inr dark \<Rightarrow> Inr (mkPattern t bg dark oy ox))
          candidates"

definition foregroundPatterns :: "string \<Rightarrow> string \<Rightarrow> string list \<Rightarrow> nat \<Rightarrow> nat \<Rightarrow> Pattern list" where
  "foregroundPatterns t bg candidates oy ox = map (\<lambda>fg. mkPattern t bg fg oy ox) candidates"

text \<open>\<^verbatim>\<open>paletteFromLightness[lightness]\<close>, where \<open>lightness\<close> is one of the keys.\<close>

definition paletteOfLightness :: "Config \<Rightarrow> string \<Rightarrow> error + string list" where
  "paletteOfLightness cfg lightness =
     (case map_of (paletteFromLightness cfg) lightness of
        None \<Rightarrow> Inl TypeError
      | Some palette \<Rightarrow> Inr palette)"

definition quantizeCell :: "Config \<Rightarrow> pixel list \<Rightarrow> pixel list \<Rightarrow> nat \<Rightarrow> nat \<Rightarrow> (string \<times> string \<times> string) filterM" where
  "quantizeCell cfg normalizedData windowData oy ox =
     bindM (liftE (tonePatterns cfg oy ox)) (\<lambda>ps1.
     bindM (bestOf cfg normalizedData ps1) (\<lambda>best1.
     let t = toneType best1 in
     bindM (liftE (backgroundPatterns cfg t (map fst (paletteFromLightness cfg)) oy ox)) (\<lambda>ps2.
     bindM (bestOf cfg windowData ps2) (\<lambda>best2.
     let backgroundLightness = backgroundColor best2 in
     bindM (liftE (paletteOfLightness cfg backgroundLightness)) (\<lambda>palette3.
     bindM (liftE (backgroundPatterns cfg t palette3 oy ox)) (\<lambda>ps3.
     bindM (bestOf cfg windowData ps3) (\<lambda>best3.
     let bg = backgroundColor best3 in
     bindM (bestOf cfg windowData
              (foregroundPatterns t bg (map fst (paletteFromLightness cfg)) oy ox)) (\<lambda>best4.
     let foregroundLightness = foregroundColor best4 in
     bindM (liftE (paletteOfLightness cfg foregroundLightness)) (\<lambda>palette5.
     bindM (bestOf cfg windowData (foregroundPatterns t bg palette5 oy ox)) (\<lambda>best5.
     returnM (t, bg, foregroundColor best5)))))))))))"

subsection \<open>Floyd-Steinberg dithering\<close>

definition ditheringRate :: rat where
  "ditheringRate = 1 / 2"

text \<open>The entries are \<open>(deltaX, deltaY, rate)\<close>.\<close>

definition ditheringPattern :: "(int \<times> int \<times> rat) list" where
  "ditheringPattern =
     [(1, 0, (7 / 16) * ditheringRate),
      (- 1, 1, (3 / 16) * ditheringRate),
      (0, 1, (5 / 16) * ditheringRate),
      (1, 1, (1 / 16) * ditheringRate)]"

text \<open>\<^verbatim>\<open>data[c] += (original - put) * rate\<close> on a \<^verbatim>\<open>Uint8ClampedArray\<close>.\<close>

definition diffuseChannel :: "nat \<Rightarrow> nat \<Rightarrow> nat \<Rightarrow> rat \<Rightarrow> nat" where
  "diffuseChannel neighbor original put rate =
     toUint8Clamp (jsAdd (byteNum neighbor)
                         (jsMul (jsSub (byteNum original) (byteNum put)) (Num rate)))"

definition diffuseInto :: "pixel \<Rightarrow> pixel \<Rightarrow> int \<Rightarrow> int \<Rightarrow> Canvas \<Rightarrow> int \<times> int \<times> rat \<Rightarrow> Canvas" where
  "diffuseInto original put x y shrinked entry =
     (case entry of (deltaX, deltaY, rate) \<Rightarrow>
        (let n = getPixel shrinked (x + deltaX) (y + deltaY);
             n' = RGBA (diffuseChannel (red n) (red original) (red put) rate)
                       (diffuseChannel (green n) (green original) (green put) rate)
                       (diffuseChannel (blue n) (blue original) (blue put) rate)
                       (alpha n)
         in putPixel shrinked (x + deltaX) (y + deltaY) n'))"

definition ditherCell :: "pixel \<Rightarrow> pixel \<Rightarrow> int \<Rightarrow> int \<Rightarrow> Canvas \<Rightarrow> Canvas" where
  "ditherCell original put x y shrinked =
     foldl (diffuseInto original put x y) shrinked ditheringPattern"

subsection \<open>One cell, and the scan\<close>

text \<open>
  The body of the inner \<^verbatim>\<open>forEach\<close>: \<open>shrinked\<close> is the canvas behind
  \<^verbatim>\<open>shrinkedContext\<close>, \<open>out\<close> the one behind \<^verbatim>\<open>this.context\<close>, \<open>zoom\<close> is
  \<^verbatim>\<open>this.actualZoom\<close>. \<^verbatim>\<open>getImageData\<close> takes integers: its arguments are truncated.
\<close>

definition processCell :: "Config \<Rightarrow> nat \<Rightarrow> nat \<Rightarrow> nat \<Rightarrow> Canvas \<times> Canvas \<Rightarrow> (Canvas \<times> Canvas) filterM" where
  "processCell cfg zoom y x bufs =
     (case bufs of (shrinked, out) \<Rightarrow>
      bindM (liftE (getImageData shrinked (truncate (windowBegin cfg x))
                      (truncate (windowBegin cfg y)) (tonePeriod cfg) (tonePeriod cfg)))
        (\<lambda>windowData.
      let normalizedData = normalizeWindow windowData;
          ox = patternOffset cfg x;
          oy = patternOffset cfg y
      in
      bindM (quantizeCell cfg normalizedData windowData oy ox) (\<lambda>(t, bg, fg).
      bindM (liftE (case map_of (tones cfg) t of
                      None \<Rightarrow> Inl TypeError
                    | Some bitmap \<Rightarrow>
                        bitmapAt bitmap (y mod tonePeriod cfg) (x mod tonePeriod cfg)))
        (\<lambda>isForeground.
      let out' = fillRect out (int (x * zoom)) (int (y * zoom)) zoom zoom
                   (rgbOf cfg (if isForeground then fg else bg));
          original = getPixel shrinked (int x) (int y);
          put = getPixel out' (int (x * zoom)) (int (y * zoom))
      in returnM (ditherCell original put (int x) (int y) shrinked, out')))))"

text \<open>
  The scan: rows top to bottom, each row left to right, over the size of the shrinked
  canvas. The model starts where \<^verbatim>\<open>shrinkedContext.drawImage\<close> has filled the shrinked
  canvas (the browser's downsampling is not modelled).
\<close>

definition applyMibaeFilter :: "Config \<Rightarrow> nat \<Rightarrow> Canvas \<times> Canvas \<Rightarrow> (Canvas \<times> Canvas) filterM" where
  "applyMibaeFilter cfg zoom bufs =
     foldM (\<lambda>bufs' y. foldM (\<lambda>bufs'' x. processCell cfg zoom y x bufs'')
                             [0..<cwidth (fst bufs)] bufs')
           [0..<cheight (fst bufs)] bufs"

section \<open>Functions and predicates used in the statements\<close>

text \<open>
The definitions of this section are not translations of source functions. They say,
  without state, what the source functions compute, name the states and configurations
  the theorems are about, and give small inputs that the theorems are instantiated on.
\<close>

subsection \<open>The tile of a pattern\<close>

text \<open>The colour of pixel \<open>(x, y)\<close> of the tile of a pattern: the fill style the loop body
  chooses.\<close>

definition tileColor :: "Config \<Rightarrow> nat list list \<Rightarrow> Pattern \<Rightarrow> nat \<Rightarrow> nat \<Rightarrow> rgb" where
  "tileColor cfg bitmap p y x =
     rgbOf cfg
       (if bitmapAt bitmap ((y + offsetY p) mod tonePeriod cfg) ((x + offsetX p) mod tonePeriod cfg) = Inr True
        then foregroundColor p else backgroundColor p)"

text \<open>The pixel that \<^verbatim>\<open>fillRect(x, y, 1, 1)\<close> leaves there.\<close>

definition tilePixel :: "Config \<Rightarrow> nat list list \<Rightarrow> Pattern \<Rightarrow> nat \<Rightarrow> nat \<Rightarrow> pixel" where
  "tilePixel cfg bitmap p y x = opaquePixel (tileColor cfg bitmap p y x)"

text \<open>The pattern canvas when the inner loop has filled the first \<open>n\<close> pixels of row
  \<open>y\<close>, and when the outer loop has filled the first \<open>m\<close> rows.\<close>

definition paintRow :: "Config \<Rightarrow> nat list list \<Rightarrow> Pattern \<Rightarrow> nat \<Rightarrow> nat \<Rightarrow> Canvas \<Rightarrow> Canvas" where
  "paintRow cfg bitmap p y n c =
     c\<lparr>pixelAt := (\<lambda>i j. if j = y \<and> i < n then tilePixel cfg bitmap p y i else pixelAt c i j)\<rparr>"

definition paintRows :: "Config \<Rightarrow> nat list list \<Rightarrow> Pattern \<Rightarrow> nat \<Rightarrow> Canvas \<Rightarrow> Canvas" where
  "paintRows cfg bitmap p m c =
     c\<lparr>pixelAt := (\<lambda>i j. if j < m \<and> i < tonePeriod cfg then tilePixel cfg bitmap p j i else pixelAt c i j)\<rparr>"

text \<open>Every bitmap row that the loops read exists.\<close>

definition rowsExist :: "Config \<Rightarrow> nat list list \<Rightarrow> Pattern \<Rightarrow> bool" where
  "rowsExist cfg bitmap p \<longleftrightarrow>
     (\<forall>y \<in> set (tonePeriodRange cfg). (y + offsetY p) mod tonePeriod cfg < length bitmap)"

text \<open>The tile read back from the pattern canvas after both loops.\<close>

definition renderedTile :: "Config \<Rightarrow> nat list list \<Rightarrow> Pattern \<Rightarrow> pixel list" where
  "renderedTile cfg bitmap p =
     concat (map (\<lambda>y. map (\<lambda>x. tilePixel cfg bitmap p y x) (tonePeriodRange cfg)) (tonePeriodRange cfg))"

text \<open>What \<open>getPatternImageData\<close> returns for a key, as a function of the configuration
  and the key: the lookup raises without a slot, the rendering raises on a missing row.\<close>

definition lookupTile :: "Config \<Rightarrow> Pattern \<Rightarrow> error + pixel list" where
  "lookupTile cfg p =
     (if \<not> cacheSlotExists cfg p then Inl TypeError
      else (case map_of (tones cfg) (toneType p) of
              None \<Rightarrow> Inl TypeError
            | Some bitmap \<Rightarrow>
                if rowsExist cfg bitmap p then Inr (renderedTile cfg bitmap p) else Inl TypeError))"

text \<open>The tile of a pattern whose tone exists.\<close>

definition patternTile :: "Config \<Rightarrow> Pattern \<Rightarrow> pixel list" where
  "patternTile cfg p =
     (case map_of (tones cfg) (toneType p) of
        None \<Rightarrow> []
      | Some bitmap \<Rightarrow> renderedTile cfg bitmap p)"

text \<open>Every tone bitmap has a row for each row of the period.\<close>

definition tonesCoverPeriod :: "Config \<Rightarrow> bool" where
  "tonesCoverPeriod cfg \<longleftrightarrow> (\<forall>(t, bitmap) \<in> set (tones cfg). tonePeriod cfg \<le> length bitmap)"

subsection \<open>States of the module\<close>

text \<open>The states the module can be in: the pattern canvas has the size of the period, and a
  tile in the cache is the tile that rendering its key gives.\<close>

definition wfState :: "Config \<Rightarrow> FilterState \<Rightarrow> bool" where
  "wfState cfg s \<longleftrightarrow>
     cwidth (patternCanvas s) = tonePeriod cfg \<and> cheight (patternCanvas s) = tonePeriod cfg \<and>
     (\<forall>p t. patternImageDataCache s p = Some t \<longrightarrow> lookupTile cfg p = Inr t)"

text \<open>What a step may do to the state besides the cache and the log.\<close>

definition sameButCanvas :: "FilterState \<Rightarrow> FilterState \<Rightarrow> bool" where
  "sameButCanvas s s' \<longleftrightarrow>
     patternImageDataCache s' = patternImageDataCache s \<and> searchLog s' = searchLog s \<and>
     cwidth (patternCanvas s') = cwidth (patternCanvas s) \<and>
     cheight (patternCanvas s') = cheight (patternCanvas s)"

text \<open>The state when the module is loaded: no tile cached, the pattern canvas transparent.\<close>

definition freshState :: "Config \<Rightarrow> FilterState" where
  "freshState cfg =
     \<lparr>patternImageDataCache = Map.empty,
      patternCanvas = \<lparr>cwidth = tonePeriod cfg, cheight = tonePeriod cfg,
                       pixelAt = (\<lambda>_ _. RGBA 0 0 0 0)\<rparr>,
      searchLog = []\<rparr>"

text \<open>Rendering a sequence of keys, one call after the other, whatever each call returns.\<close>

primrec renderMany :: "Config \<Rightarrow> Pattern list \<Rightarrow> FilterState \<Rightarrow> FilterState" where
  "renderMany cfg [] s = s"
| "renderMany cfg (k # ks) s = renderMany cfg ks (snd (getPatternImageData cfg k s))"

text \<open>A computation whose result does not depend on which reachable state it starts
  from, and which leaves a reachable state.\<close>

definition stateIndependent :: "Config \<Rightarrow> 'a filterM \<Rightarrow> bool" where
  "stateIndependent cfg m \<longleftrightarrow>
     (\<forall>s1 s2. wfState cfg s1 \<longrightarrow> wfState cfg s2 \<longrightarrow>
        fst (m s1) = fst (m s2) \<and> wfState cfg (snd (m s1)))"

subsection \<open>The search without state\<close>

text \<open>A loop over a list with local variables \<open>acc\<close> that can raise and has no state.\<close>

primrec foldE :: "('b \<Rightarrow> 'a \<Rightarrow> error + 'b) \<Rightarrow> 'a list \<Rightarrow> 'b \<Rightarrow> error + 'b" where
  "foldE f [] acc = Inr acc"
| "foldE f (x # xs) acc = (case f acc x of Inl e \<Rightarrow> Inl e | Inr acc' \<Rightarrow> foldE f xs acc')"

text \<open>The loop over the window in \<open>getBestPattern\<close>, with the tile taken from
  \<open>lookupTile\<close>.\<close>

definition distanceStep :: "Config \<Rightarrow> Pattern \<Rightarrow> jsnum \<Rightarrow> nat \<times> pixel \<Rightarrow> error + jsnum" where
  "distanceStep cfg p distance kpx =
     (case kpx of (k, px) \<Rightarrow>
        if alpha px \<noteq> 255 then Inr distance
        else (case lookupTile cfg p of
                Inl e \<Rightarrow> Inl e
              | Inr tile \<Rightarrow> Inr (jsAdd distance (pixelDistance px (nthOpt tile k)))))"

definition windowDistance :: "Config \<Rightarrow> pixel list \<Rightarrow> Pattern \<Rightarrow> error + jsnum" where
  "windowDistance cfg data p = foldE (distanceStep cfg p) (enumerate 0 data) (Num 0)"

text \<open>The loop over the patterns, and the result of \<open>getBestPattern\<close>.\<close>

definition bestStep :: "Config \<Rightarrow> pixel list \<Rightarrow> Pattern option \<times> jsnum \<Rightarrow> Pattern \<Rightarrow> error + Pattern option \<times> jsnum" where
  "bestStep cfg data best pattern =
     (case best of (bestPattern, bestPatternDistance) \<Rightarrow>
        (case windowDistance cfg data pattern of
           Inl e \<Rightarrow> Inl e
         | Inr distance \<Rightarrow>
             Inr (if jsLt distance bestPatternDistance then (Some pattern, distance)
                  else (bestPattern, bestPatternDistance))))"

definition selectBest :: "Config \<Rightarrow> pixel list \<Rightarrow> Pattern list \<Rightarrow> error + Pattern option" where
  "selectBest cfg data patterns =
     (case foldE (bestStep cfg data) patterns
             (case patterns of [] \<Rightarrow> None | p # _ \<Rightarrow> Some p, PInf) of
        Inl e \<Rightarrow> Inl e
      | Inr (bestPattern, _) \<Rightarrow> Inr bestPattern)"

text \<open>The distance of a window to a tile: the squared differences of the three colour
  channels, added up over the opaque pixels of the window.\<close>

definition squaredDistance :: "pixel \<Rightarrow> pixel \<Rightarrow> int" where
  "squaredDistance d t =
     (int (red d) - int (red t))\<^sup>2 + (int (green d) - int (green t))\<^sup>2 + (int (blue d) - int (blue t))\<^sup>2"

definition euclideanDistance :: "pixel list \<Rightarrow> pixel list \<Rightarrow> int" where
  "euclideanDistance data tile =
     (\<Sum>(d, t) \<leftarrow> zip data tile. if alpha d = 255 then squaredDistance d t else 0)"

text \<open>The running best of the loop, for finite distances.\<close>

definition keepFirstLowest :: "('a \<Rightarrow> int) \<Rightarrow> 'a \<Rightarrow> 'a list \<Rightarrow> 'a" where
  "keepFirstLowest f b ps = foldl (\<lambda>best p. if f p < f best then p else best) b ps"

subsection \<open>Normalization and dithering\<close>

text \<open>The pixels the normalization works on, their lightness, and what the first loop
  stores for them.\<close>

definition isOpaque :: "pixel \<Rightarrow> bool" where
  "isOpaque px \<longleftrightarrow> alpha px = 255"

definition lightnessOf :: "pixel \<Rightarrow> jsnum" where
  "lightnessOf px = Num (luma (red px) (green px) (blue px))"

definition grayPixel :: "pixel \<Rightarrow> pixel" where
  "grayPixel px = (let v = toUint8Clamp (lightnessOf px) in RGBA v v v (alpha px))"

text \<open>\<^verbatim>\<open>Number.isFinite\<close>.\<close>

fun isFinite :: "jsnum \<Rightarrow> bool" where
  "isFinite (Num _) = True"
| "isFinite _ = False"

text \<open>The division by zero on a window whose opaque pixels all have the lightness \<open>m\<close>:
  the numerator is the byte stored by the first loop minus \<open>m\<close>, times 255, so the
  quotient is \<open>Infinity\<close> when the byte is above \<open>m\<close>, NaN when it is \<open>m\<close> and
  \<open>-Infinity\<close> when it is below; \<open>flatValue\<close> is what the store makes of it.\<close>

definition flatQuotient :: "rat \<Rightarrow> jsnum" where
  "flatQuotient m =
     (if m < of_nat (toUint8Clamp (Num m)) then PInf
      else if m = of_nat (toUint8Clamp (Num m)) then NaN
      else NInf)"

definition flatValue :: "rat \<Rightarrow> nat" where
  "flatValue m = (if m < of_nat (toUint8Clamp (Num m)) then 255 else 0)"

text \<open>The normalized window when every opaque pixel becomes \<open>(v, v, v, 255)\<close>.\<close>

definition flatWindow :: "nat \<Rightarrow> pixel list \<Rightarrow> pixel list" where
  "flatWindow v w = map (\<lambda>px. if alpha px = 255 then RGBA v v v 255 else px) w"


subsection \<open>Valid configurations\<close>

text \<open>A configuration on which no lookup of the filter can raise: a positive period, at
  least one tone, a bitmap row for every row of the period, the palettes \<open>light\<close> and
  \<open>dark\<close>, and no empty palette.\<close>

definition validConfig :: "Config \<Rightarrow> bool" where
  "validConfig cfg \<longleftrightarrow>
     0 < tonePeriod cfg \<and> tones cfg \<noteq> [] \<and> tonesCoverPeriod cfg \<and>
     map_of (palettes cfg) ''light'' \<noteq> None \<and> map_of (palettes cfg) ''dark'' \<noteq> None \<and>
     (\<forall>(name, palette) \<in> set (palettes cfg). palette \<noteq> [])"

subsection \<open>Example inputs\<close>

text \<open>A small configuration and inputs, on which the theorems below are instantiated.\<close>

definition exampleRgb :: "string \<Rightarrow> rgb" where
  "exampleRgb c =
     (if c = ''white'' then (255, 255, 255)
      else if c = ''silver'' then (170, 170, 170)
      else if c = ''gray'' then (85, 85, 85)
      else (0, 0, 0))"

definition exampleConfig :: Config where
  "exampleConfig =
     \<lparr>tonePeriod = 2,
      tones = [(''fill'', [[1, 1], [1, 1]]), (''dot'', [[1, 0], [0, 0]])],
      palettes = [(''light'', [''white'', ''silver'']), (''dark'', [''black'', ''gray''])],
      rgbOf = exampleRgb\<rparr>"

definition examplePattern :: Pattern where
  "examplePattern = mkPattern ''dot'' ''white'' ''black'' 1 0"

definition examplePatterns :: "Pattern list" where
  "examplePatterns =
     [mkPattern ''fill'' ''white'' ''black'' 0 0, mkPattern ''dot'' ''white'' ''black'' 0 0,
      mkPattern ''dot'' ''white'' ''black'' 0 0]"

definition exampleWindow :: "pixel list" where
  "exampleWindow = [RGBA 0 0 0 255, RGBA 250 250 250 255, RGBA 255 255 255 255, RGBA 9 9 9 0]"

definition exampleHiddenWindow :: "pixel list" where
  "exampleHiddenWindow = [RGBA 0 0 0 0, RGBA 250 250 250 254, RGBA 255 255 255 0, RGBA 9 9 9 1]"

definition exampleFlatWindow :: "pixel list" where
  "exampleFlatWindow =
     [RGBA 128 128 128 255, RGBA 128 128 128 255, RGBA 128 128 128 255, RGBA 128 128 128 255]"

definition exampleFlatWindow129 :: "pixel list" where
  "exampleFlatWindow129 =
     [RGBA 129 129 129 255, RGBA 129 129 129 255, RGBA 129 129 129 255, RGBA 129 129 129 255]"

definition exampleSource :: Canvas where
  "exampleSource =
     \<lparr>cwidth = 2, cheight = 2,
      pixelAt = (\<lambda>i j. if i = 0 \<and> j = 0 then RGBA 200 100 50 255 else RGBA 10 20 30 255)\<rparr>"

definition exampleOutput :: Canvas where
  "exampleOutput = \<lparr>cwidth = 4, cheight = 4, pixelAt = (\<lambda>i j. RGBA 0 0 0 0)\<rparr>"

section \<open>Properties of the program\<close>

text \<open>
Each subsection takes one part of the filter: the lemmas it needs, then the properties
  of the specification that concern it.
\<close>

subsection \<open>The monad\<close>

lemmas monad_defs = bindM_def returnM_def throwM_def liftE_def

lemma bindM_Inr: "m s = (Inr v, s') \<Longrightarrow> bindM m f s = f v s'"
  by (simp add: bindM_def)

lemma bindM_Inl: "m s = (Inl e, s') \<Longrightarrow> bindM m f s = (Inl e, s')"
  by (simp add: bindM_def)

lemma foldM_append: "foldM f (xs @ ys) acc = bindM (foldM f xs acc) (foldM f ys)"
proof (induction xs arbitrary: acc)
  case Nil
  show ?case by (simp add: monad_defs)
next
  case (Cons x xs)
  show ?case
    by (rule ext) (simp add: Cons bindM_def split: prod.splits sum.splits)
qed

subsection \<open>The rendering loops\<close>

text \<open>
The two nested loops of \<open>getPatternImageData\<close> overwrite every pixel of the pattern
  canvas, so that what is read back does not depend on what the canvas held before.
\<close>

lemma fillPatternPixel_row:
  assumes "(y + offsetY p) mod tonePeriod cfg < length bitmap"
  shows "fillPatternPixel cfg bitmap p y x s =
           (Inr (), s\<lparr>patternCanvas := fillRect (patternCanvas s) (int x) (int y) 1 1
               (tileColor cfg bitmap p y x)\<rparr>)"
  using assms by (simp add: fillPatternPixel_def bitmapAt_def tileColor_def monad_defs)

lemma fillPatternPixel_norow:
  assumes "\<not> (y + offsetY p) mod tonePeriod cfg < length bitmap"
  shows "fillPatternPixel cfg bitmap p y x s = (Inl TypeError, s)"
  using assms by (simp add: fillPatternPixel_def bitmapAt_def monad_defs)

lemma paintRow_0: "paintRow cfg bitmap p y 0 c = c"
  by (simp add: paintRow_def)

lemma paintRows_0: "paintRows cfg bitmap p 0 c = c"
  by (simp add: paintRows_def)

lemma canvas_upd_cong: "f = g \<Longrightarrow> c\<lparr>pixelAt := f\<rparr> = c\<lparr>pixelAt := g\<rparr>"
  by simp

lemma fillRect_paintRow:
  assumes "n < cwidth c" "y < cheight c"
  shows "fillRect (paintRow cfg bitmap p y n c) (int n) (int y) 1 1
           (tileColor cfg bitmap p y n) = paintRow cfg bitmap p y (Suc n) c"
proof -
  have "(\<lambda>i j. if int n \<le> int i \<and> int i < int n + int 1 \<and> int y \<le> int j \<and> int j < int y + int 1
             \<and> i < cwidth c \<and> j < cheight c
          then opaquePixel (tileColor cfg bitmap p y n)
          else (if j = y \<and> i < n then tilePixel cfg bitmap p y i else pixelAt c i j))
      = (\<lambda>i j. if j = y \<and> i < Suc n then tilePixel cfg bitmap p y i else pixelAt c i j)"
    using assms by (auto simp: fun_eq_iff tilePixel_def less_Suc_eq)
  then show ?thesis
    by (simp add: fillRect_def paintRow_def cong: if_cong)
qed

lemma inner_loop:
  assumes "(y + offsetY p) mod tonePeriod cfg < length bitmap"
      and "n \<le> cwidth (patternCanvas s)" "y < cheight (patternCanvas s)"
  shows "forEachM [0..<n] (fillPatternPixel cfg bitmap p y) s =
           (Inr (), s\<lparr>patternCanvas := paintRow cfg bitmap p y n (patternCanvas s)\<rparr>)"
  using assms(2)
proof (induction n)
  case 0
  show ?case by (simp add: forEachM_def paintRow_0 monad_defs)
next
  case (Suc n)
  then have IH: "forEachM [0..<n] (fillPatternPixel cfg bitmap p y) s =
           (Inr (), s\<lparr>patternCanvas := paintRow cfg bitmap p y n (patternCanvas s)\<rparr>)" by simp
  have fr: "fillRect (paintRow cfg bitmap p y n (patternCanvas s)) (int n) (int y) 1 1
           (tileColor cfg bitmap p y n) = paintRow cfg bitmap p y (Suc n) (patternCanvas s)"
    using Suc.prems assms(3) by (intro fillRect_paintRow) simp_all
  have "forEachM [0..<Suc n] (fillPatternPixel cfg bitmap p y) s =
      foldM (\<lambda>_. fillPatternPixel cfg bitmap p y) [n] ()
        (s\<lparr>patternCanvas := paintRow cfg bitmap p y n (patternCanvas s)\<rparr>)"
    unfolding forEachM_def upt_Suc_append[OF le0] foldM_append
    by (rule bindM_Inr) (use IH in \<open>simp add: forEachM_def\<close>)
  also have "\<dots> = (Inr (), s\<lparr>patternCanvas := paintRow cfg bitmap p y (Suc n) (patternCanvas s)\<rparr>)"
    using fr by (simp add: monad_defs fillPatternPixel_row[OF assms(1)])
  finally show ?case .
qed

lemma paintRow_paintRows:
  assumes "m < tonePeriod cfg"
  shows "paintRow cfg bitmap p m (tonePeriod cfg) (paintRows cfg bitmap p m c) = paintRows cfg bitmap p (Suc m) c"
proof -
  have "(\<lambda>i j. if j = m \<and> i < tonePeriod cfg then tilePixel cfg bitmap p m i
               else (if j < m \<and> i < tonePeriod cfg then tilePixel cfg bitmap p j i else pixelAt c i j))
      = (\<lambda>i j. if j < Suc m \<and> i < tonePeriod cfg then tilePixel cfg bitmap p j i else pixelAt c i j)"
    by (auto simp: fun_eq_iff less_Suc_eq)
  then show ?thesis
    by (simp add: paintRow_def paintRows_def cong: if_cong)
qed

lemma outer_loop:
  assumes rows: "rowsExist cfg bitmap p"
      and dims: "cwidth (patternCanvas s) = tonePeriod cfg" "cheight (patternCanvas s) = tonePeriod cfg"
      and "m \<le> tonePeriod cfg"
  shows "forEachM [0..<m] (\<lambda>y. forEachM (tonePeriodRange cfg) (fillPatternPixel cfg bitmap p y)) s =
           (Inr (), s\<lparr>patternCanvas := paintRows cfg bitmap p m (patternCanvas s)\<rparr>)"
  using assms(4)
proof (induction m)
  case 0
  show ?case by (simp add: forEachM_def paintRows_0 monad_defs)
next
  case (Suc m)
  let ?F = "\<lambda>y. forEachM (tonePeriodRange cfg) (fillPatternPixel cfg bitmap p y)"
  let ?s1 = "s\<lparr>patternCanvas := paintRows cfg bitmap p m (patternCanvas s)\<rparr>"
  from Suc have IH: "forEachM [0..<m] ?F s = (Inr (), ?s1)" by simp
  have row: "(m + offsetY p) mod tonePeriod cfg < length bitmap"
    using rows Suc.prems by (simp add: rowsExist_def tonePeriodRange_def)
  have inner: "?F m ?s1 = (Inr (), ?s1\<lparr>patternCanvas := paintRow cfg bitmap p m (tonePeriod cfg) (patternCanvas ?s1)\<rparr>)"
    unfolding tonePeriodRange_def
    using Suc.prems dims by (intro inner_loop[OF row]) (simp_all add: paintRows_def)
  have "forEachM [0..<Suc m] ?F s = foldM (\<lambda>_. ?F) [m] () ?s1"
    unfolding forEachM_def[of "[0..<Suc m]"] forEachM_def[of "[0..<m] @ [m]"] upt_Suc_append[OF le0] foldM_append
    by (rule bindM_Inr) (use IH in \<open>simp add: forEachM_def\<close>)
  also have "\<dots> = (Inr (), s\<lparr>patternCanvas := paintRows cfg bitmap p (Suc m) (patternCanvas s)\<rparr>)"
    using Suc.prems by (simp add: monad_defs inner paintRow_paintRows)
  finally show ?case .
qed

lemma sameButCanvas_refl [simp]: "sameButCanvas s s"
  by (simp add: sameButCanvas_def)

lemma sameButCanvas_trans: "sameButCanvas s s' \<Longrightarrow> sameButCanvas s' s'' \<Longrightarrow> sameButCanvas s s''"
  by (simp add: sameButCanvas_def)

lemma fillPatternPixel_frame: "sameButCanvas s (snd (fillPatternPixel cfg bitmap p y x s))"
  by (cases "bitmapAt bitmap ((y + offsetY p) mod tonePeriod cfg) ((x + offsetX p) mod tonePeriod cfg)")
     (simp_all add: fillPatternPixel_def sameButCanvas_def fillRect_def monad_defs)

lemma foldM_frame:
  assumes "\<And>acc x s. R s (snd (f acc x s))" and "\<And>s. R s s" and "\<And>s s' s''. R s s' \<Longrightarrow> R s' s'' \<Longrightarrow> R s s''"
  shows "R s (snd (foldM f xs acc s))"
proof (induction xs arbitrary: acc s)
  case Nil
  show ?case by (simp add: assms(2) monad_defs)
next
  case (Cons x xs)
  show ?case
  proof (cases "f acc x s")
    case (Pair r s1)
    have R1: "R s s1" using assms(1)[of s acc x] Pair by simp
    show ?thesis
    proof (cases r)
      case (Inl e)
      then show ?thesis using Pair R1 by (simp add: bindM_def)
    next
      case (Inr v)
      then show ?thesis using Pair assms(3)[OF R1 Cons.IH[of s1 v]] by (simp add: bindM_def)
    qed
  qed
qed

lemma render_loops_frame:
  "sameButCanvas s (snd (forEachM ys (\<lambda>y. forEachM xs (fillPatternPixel cfg bitmap p y)) s))"
  unfolding forEachM_def
  by (rule foldM_frame[where R = sameButCanvas])
     (rule foldM_frame[where R = sameButCanvas], rule fillPatternPixel_frame, simp,
      erule (1) sameButCanvas_trans, simp, erule (1) sameButCanvas_trans)

text \<open>A missing row makes the loops raise.\<close>

lemma foldM_error_kind:
  assumes "\<And>acc x s e. fst (f acc x s) = Inl e \<Longrightarrow> e = TypeError"
  shows "fst (foldM f xs acc s) = Inl e \<Longrightarrow> e = TypeError"
proof (induction xs arbitrary: acc s)
  case Nil
  then show ?case by (simp add: monad_defs)
next
  case (Cons x xs)
  show ?case
  proof (cases "f acc x s")
    case (Pair r s1)
    show ?thesis
    proof (cases r)
      case (Inl e')
      then show ?thesis using Pair Cons.prems assms[of acc x s e'] by (simp add: bindM_def)
    next
      case (Inr v)
      then show ?thesis using Pair Cons.prems Cons.IH[of v s1] by (simp add: bindM_def)
    qed
  qed
qed

lemma fillPatternPixel_error: "fst (fillPatternPixel cfg bitmap p y x s) = Inl e \<Longrightarrow> e = TypeError"
  by (cases "bitmapAt bitmap ((y + offsetY p) mod tonePeriod cfg) ((x + offsetX p) mod tonePeriod cfg)")
     (auto simp: fillPatternPixel_def bitmapAt_def monad_defs split: if_splits)

lemma render_loops_error:
  "fst (forEachM ys (\<lambda>y. forEachM xs (fillPatternPixel cfg bitmap p y)) s) = Inl e \<Longrightarrow> e = TypeError"
  unfolding forEachM_def
  by (erule foldM_error_kind[rotated], erule foldM_error_kind[rotated], erule fillPatternPixel_error)

lemma foldM_fails:
  assumes "x \<in> set xs" and "\<And>acc s. \<exists>e. fst (f acc x s) = Inl e"
  shows "\<exists>e. fst (foldM f xs acc s) = Inl e"
  using assms(1)
proof (induction xs arbitrary: acc s)
  case Nil
  then show ?case by simp
next
  case (Cons z xs)
  show ?case
  proof (cases "f acc z s")
    case (Pair r s1)
    show ?thesis
    proof (cases r)
      case (Inl e')
      then show ?thesis using Pair by (simp add: bindM_def)
    next
      case (Inr v)
      then have "z \<noteq> x" using assms(2)[of acc s] Pair by auto
      then have "x \<in> set xs" using Cons.prems by simp
      from Cons.IH[OF this, of v s1] show ?thesis using Pair Inr by (simp add: bindM_def)
    qed
  qed
qed

lemma render_loops_missing_row:
  assumes "\<not> rowsExist cfg bitmap p"
  shows "fst (forEachM (tonePeriodRange cfg) (\<lambda>y. forEachM (tonePeriodRange cfg) (fillPatternPixel cfg bitmap p y)) s) = Inl TypeError"
proof -
  from assms obtain y where y: "y \<in> set (tonePeriodRange cfg)"
    and nrow: "\<not> (y + offsetY p) mod tonePeriod cfg < length bitmap"
    by (auto simp: rowsExist_def)
  then have pos: "0 \<in> set (tonePeriodRange cfg)" by (auto simp: tonePeriodRange_def)
  have inner: "\<exists>e. fst (forEachM (tonePeriodRange cfg) (fillPatternPixel cfg bitmap p y) s') = Inl e" for s'
    unfolding forEachM_def
    by (rule foldM_fails[OF pos]) (simp add: fillPatternPixel_norow[OF nrow])
  have "\<exists>e. fst (forEachM (tonePeriodRange cfg) (\<lambda>y. forEachM (tonePeriodRange cfg) (fillPatternPixel cfg bitmap p y)) s) = Inl e"
    unfolding forEachM_def[of _ "\<lambda>y. forEachM (tonePeriodRange cfg) (fillPatternPixel cfg bitmap p y)"]
    by (rule foldM_fails[OF y]) (rule inner)
  then show ?thesis using render_loops_error by blast
qed

lemma getImageData_paintRows:
  assumes "cwidth c = tonePeriod cfg" "cheight c = tonePeriod cfg" "0 < tonePeriod cfg"
  shows "getImageData (paintRows cfg bitmap p (tonePeriod cfg) c) 0 0 (tonePeriod cfg) (tonePeriod cfg)
           = Inr (renderedTile cfg bitmap p)"
proof -
  have px: "getPixel (paintRows cfg bitmap p (tonePeriod cfg) c) (int i) (int j) = tilePixel cfg bitmap p j i"
    if "i < tonePeriod cfg" "j < tonePeriod cfg" for i j
    using that assms by (simp add: getPixel_def inCanvas_def paintRows_def)
  have eq: "map (\<lambda>j. map (\<lambda>i. getPixel (paintRows cfg bitmap p (tonePeriod cfg) c) (int i) (int j))
                   [0..<tonePeriod cfg]) [0..<tonePeriod cfg]
      = map (\<lambda>y. map (\<lambda>x. tilePixel cfg bitmap p y x) [0..<tonePeriod cfg]) [0..<tonePeriod cfg]"
    by (rule map_cong[OF refl], rule map_cong[OF refl]) (simp add: px)
  have "getImageData (paintRows cfg bitmap p (tonePeriod cfg) c) 0 0 (tonePeriod cfg) (tonePeriod cfg)
      = Inr (concat (map (\<lambda>j. map (\<lambda>i. getPixel (paintRows cfg bitmap p (tonePeriod cfg) c) (int i) (int j))
                   [0..<tonePeriod cfg]) [0..<tonePeriod cfg]))"
    using assms(3) by (simp add: getImageData_def)
  then show ?thesis
    unfolding eq renderedTile_def tonePeriodRange_def .
qed

lemma concat_rows_nth:
  assumes "y < m" "x < n"
  shows "concat (map (\<lambda>j. map (f j) [0..<n]) [0..<m]) ! (y * n + x) = f y x"
  using assms(1)
proof (induction m)
  case 0
  then show ?case by simp
next
  case (Suc m)
  have len: "length (concat (map (\<lambda>j. map (f j) [0..<n]) [0..<m])) = m * n"
    by (simp add: length_concat comp_def sum_list_triv)
  show ?case
  proof (cases "y < m")
    case True
    have "y * n + x < Suc y * n" using assms(2) by simp
    also have "\<dots> \<le> m * n" using True by (intro mult_le_mono1) simp
    finally have "y * n + x < m * n" .
    then show ?thesis using Suc.IH[OF True] by (simp add: nth_append len)
  next
    case False
    then have "y = m" using Suc.prems by simp
    then show ?thesis using assms(2) by (simp add: nth_append len)
  qed
qed

lemma renderedTile_nth:
  assumes "x < tonePeriod cfg" "y < tonePeriod cfg"
  shows "renderedTile cfg bitmap p ! (y * tonePeriod cfg + x) = tilePixel cfg bitmap p y x"
  unfolding renderedTile_def tonePeriodRange_def using assms by (intro concat_rows_nth)

lemma length_renderedTile: "length (renderedTile cfg bitmap p) = tonePeriod cfg * tonePeriod cfg"
  by (simp add: renderedTile_def tonePeriodRange_def length_concat comp_def sum_list_triv)

subsection \<open>The pattern cache\<close>

lemma cacheSlot_tone:
  assumes "cacheSlotExists cfg p"
  obtains bitmap where "map_of (tones cfg) (toneType p) = Some bitmap"
proof -
  from assms have "toneType p \<in> fst ` set (tones cfg)" by (simp add: cacheSlotExists_def)
  then have "map_of (tones cfg) (toneType p) \<noteq> None" by (simp add: map_of_eq_None_iff)
  then show ?thesis using that by blast
qed

lemma getPatternImageData_hit:
  assumes "cacheSlotExists cfg p" "patternImageDataCache s p = Some t"
  shows "getPatternImageData cfg p s = (Inr t, s)"
  using assms by (simp add: getPatternImageData_def)

lemma getPatternImageData_noslot:
  assumes "\<not> cacheSlotExists cfg p"
  shows "getPatternImageData cfg p s = (Inl TypeError, s)"
  using assms by (simp add: getPatternImageData_def)

lemma getPatternImageData_miss:
  assumes slot: "cacheSlotExists cfg p" and miss: "patternImageDataCache s p = None"
      and tone: "map_of (tones cfg) (toneType p) = Some bitmap"
      and rows: "rowsExist cfg bitmap p"
      and dims: "cwidth (patternCanvas s) = tonePeriod cfg" "cheight (patternCanvas s) = tonePeriod cfg"
  shows "getPatternImageData cfg p s =
           (Inr (renderedTile cfg bitmap p),
            s\<lparr>patternCanvas := paintRows cfg bitmap p (tonePeriod cfg) (patternCanvas s),
              patternImageDataCache := (patternImageDataCache s)(p \<mapsto> renderedTile cfg bitmap p)\<rparr>)"
proof -
  have pos: "0 < tonePeriod cfg" using slot by (auto simp: cacheSlotExists_def)
  have loops: "forEachM (tonePeriodRange cfg) (\<lambda>y. forEachM (tonePeriodRange cfg) (fillPatternPixel cfg bitmap p y)) s =
           (Inr (), s\<lparr>patternCanvas := paintRows cfg bitmap p (tonePeriod cfg) (patternCanvas s)\<rparr>)"
    using outer_loop[OF rows dims le_refl] by (simp add: tonePeriodRange_def)
  show ?thesis
    using slot miss tone loops
    by (simp add: getPatternImageData_def monad_defs getImageData_paintRows[OF dims pos])
qed

lemma getPatternImageData_missing_row:
  assumes slot: "cacheSlotExists cfg p" and miss: "patternImageDataCache s p = None"
      and tone: "map_of (tones cfg) (toneType p) = Some bitmap"
      and rows: "\<not> rowsExist cfg bitmap p"
  shows "fst (getPatternImageData cfg p s) = Inl TypeError"
    and "sameButCanvas s (snd (getPatternImageData cfg p s))"
proof -
  let ?loops = "forEachM (tonePeriodRange cfg) (\<lambda>y. forEachM (tonePeriodRange cfg) (fillPatternPixel cfg bitmap p y))"
  obtain r s1 where l: "?loops s = (r, s1)" by (cases "?loops s")
  have "r = Inl TypeError" using render_loops_missing_row[OF rows, of s] l by simp
  moreover have "sameButCanvas s s1" using render_loops_frame[of s "tonePeriodRange cfg" "tonePeriodRange cfg" cfg bitmap p] l by simp
  ultimately show "fst (getPatternImageData cfg p s) = Inl TypeError"
    and "sameButCanvas s (snd (getPatternImageData cfg p s))"
    using slot miss tone l by (simp_all add: getPatternImageData_def bindM_def)
qed

lemma wfState_sameButCanvas: "wfState cfg s \<Longrightarrow> sameButCanvas s s' \<Longrightarrow> wfState cfg s'"
  by (simp add: wfState_def sameButCanvas_def)

lemma getPatternImageData_wf:
  assumes wf: "wfState cfg s"
  shows "fst (getPatternImageData cfg p s) = lookupTile cfg p \<and>
         wfState cfg (snd (getPatternImageData cfg p s)) \<and>
         searchLog (snd (getPatternImageData cfg p s)) = searchLog s"
proof (cases "cacheSlotExists cfg p")
  case False
  then show ?thesis using wf by (simp add: getPatternImageData_noslot lookupTile_def)
next
  case slot: True
  then obtain bitmap where tone: "map_of (tones cfg) (toneType p) = Some bitmap"
    by (rule cacheSlot_tone)
  show ?thesis
  proof (cases "patternImageDataCache s p")
    case (Some t)
    then have "lookupTile cfg p = Inr t" using wf by (simp add: wfState_def)
    then show ?thesis using wf by (simp add: getPatternImageData_hit[OF slot Some])
  next
    case None
    show ?thesis
    proof (cases "rowsExist cfg bitmap p")
      case True
      have dims: "cwidth (patternCanvas s) = tonePeriod cfg" "cheight (patternCanvas s) = tonePeriod cfg"
        using wf by (simp_all add: wfState_def)
      have lk: "lookupTile cfg p = Inr (renderedTile cfg bitmap p)"
        using slot tone True by (simp add: lookupTile_def)
      show ?thesis
        using wf lk by (simp add: getPatternImageData_miss[OF slot None tone True dims] wfState_def paintRows_def)
    next
      case False
      have lk: "lookupTile cfg p = Inl TypeError"
        using slot tone False by (simp add: lookupTile_def)
      show ?thesis
        using getPatternImageData_missing_row[OF slot None tone False] wf lk
        by (auto intro: wfState_sameButCanvas simp: sameButCanvas_def)
    qed
  qed
qed

lemma wfState_freshState: "wfState cfg (freshState cfg)"
  by (simp add: wfState_def freshState_def)

lemma example_tone: "map_of (tones exampleConfig) (toneType examplePattern) = Some [[1, 0], [0, 0]]"
  by (simp add: exampleConfig_def examplePattern_def mkPattern_def)

lemma example_slot: "cacheSlotExists exampleConfig examplePattern"
  by (simp add: examplePattern_def cacheSlotExists_def exampleConfig_def colors_def mkPattern_def)

text \<open>
  Claim C3. For a pattern that has a slot in the cache: when a tile is stored under its
  key, \<open>getPatternImageData\<close> returns that tile and leaves the whole state as it is
  (nothing is rendered); when none is stored, it returns a tile of period times period
  pixels in which pixel \<open>(x, y)\<close> is the foreground colour exactly when
  \<^verbatim>\<open>tone.bitmap[(y + offsetY) % tonePeriod][(x + offsetX) % tonePeriod]\<close> holds and the
  background colour otherwise, with alpha 255, and the new cache is the old one with
  this tile stored under the key. The pattern canvas has the size of the period and the
  tone's bitmap has a row for every row of the period.
\<close>

theorem getPatternImageData_hit_or_render:
  assumes slot: "cacheSlotExists cfg p"
      and dims: "cwidth (patternCanvas s) = tonePeriod cfg" "cheight (patternCanvas s) = tonePeriod cfg"
      and tone: "map_of (tones cfg) (toneType p) = Some bitmap"
      and rows: "tonePeriod cfg \<le> length bitmap"
  shows "(\<forall>t. patternImageDataCache s p = Some t \<longrightarrow> getPatternImageData cfg p s = (Inr t, s)) \<and>
         (patternImageDataCache s p = None \<longrightarrow>
            (\<exists>tile s'. getPatternImageData cfg p s = (Inr tile, s') \<and>
               length tile = tonePeriod cfg * tonePeriod cfg \<and>
               (\<forall>x < tonePeriod cfg. \<forall>y < tonePeriod cfg.
                  tile ! (y * tonePeriod cfg + x) =
                    (case rgbOf cfg (if bitmapAt bitmap ((y + offsetY p) mod tonePeriod cfg)
                                                        ((x + offsetX p) mod tonePeriod cfg) = Inr True
                                     then foregroundColor p else backgroundColor p)
                     of (r, g, b) \<Rightarrow> RGBA r g b 255)) \<and>
               patternImageDataCache s' = (patternImageDataCache s)(p \<mapsto> tile) \<and>
               searchLog s' = searchLog s))"
proof -
  have pos: "0 < tonePeriod cfg" using slot by (auto simp: cacheSlotExists_def)
  have re: "rowsExist cfg bitmap p"
    unfolding rowsExist_def
  proof
    fix y
    have "(y + offsetY p) mod tonePeriod cfg < tonePeriod cfg" using pos by simp
    then show "(y + offsetY p) mod tonePeriod cfg < length bitmap" using rows by simp
  qed
  have px: "renderedTile cfg bitmap p ! (y * tonePeriod cfg + x) =
                    (case rgbOf cfg (if bitmapAt bitmap ((y + offsetY p) mod tonePeriod cfg)
                                                        ((x + offsetX p) mod tonePeriod cfg) = Inr True
                                     then foregroundColor p else backgroundColor p)
                     of (r, g, b) \<Rightarrow> RGBA r g b 255)"
    if "x < tonePeriod cfg" "y < tonePeriod cfg" for x y
    using renderedTile_nth[OF that] by (simp add: tilePixel_def tileColor_def opaquePixel_def)
  show ?thesis
  proof (intro conjI allI impI)
    fix t assume "patternImageDataCache s p = Some t"
    then show "getPatternImageData cfg p s = (Inr t, s)" by (rule getPatternImageData_hit[OF slot])
  next
    assume miss: "patternImageDataCache s p = None"
    let ?tile = "renderedTile cfg bitmap p"
    let ?s' = "s\<lparr>patternCanvas := paintRows cfg bitmap p (tonePeriod cfg) (patternCanvas s),
              patternImageDataCache := (patternImageDataCache s)(p \<mapsto> renderedTile cfg bitmap p)\<rparr>"
    have run: "getPatternImageData cfg p s = (Inr ?tile, ?s')"
      by (rule getPatternImageData_miss[OF slot miss tone re dims])
    have "getPatternImageData cfg p s = (Inr ?tile, ?s') \<and>
               length ?tile = tonePeriod cfg * tonePeriod cfg \<and>
               (\<forall>x < tonePeriod cfg. \<forall>y < tonePeriod cfg.
                  ?tile ! (y * tonePeriod cfg + x) =
                    (case rgbOf cfg (if bitmapAt bitmap ((y + offsetY p) mod tonePeriod cfg)
                                                        ((x + offsetX p) mod tonePeriod cfg) = Inr True
                                     then foregroundColor p else backgroundColor p)
                     of (r, g, b) \<Rightarrow> RGBA r g b 255)) \<and>
               patternImageDataCache ?s' = (patternImageDataCache s)(p \<mapsto> ?tile) \<and>
               searchLog ?s' = searchLog s"
      using run px length_renderedTile[of cfg bitmap p] by simp
    then show "\<exists>tile s'. getPatternImageData cfg p s = (Inr tile, s') \<and>
               length tile = tonePeriod cfg * tonePeriod cfg \<and>
               (\<forall>x < tonePeriod cfg. \<forall>y < tonePeriod cfg.
                  tile ! (y * tonePeriod cfg + x) =
                    (case rgbOf cfg (if bitmapAt bitmap ((y + offsetY p) mod tonePeriod cfg)
                                                        ((x + offsetX p) mod tonePeriod cfg) = Inr True
                                     then foregroundColor p else backgroundColor p)
                     of (r, g, b) \<Rightarrow> RGBA r g b 255)) \<and>
               patternImageDataCache s' = (patternImageDataCache s)(p \<mapsto> tile) \<and>
               searchLog s' = searchLog s"
      by blast
  qed
qed

theorem getPatternImageData_hit_or_render_witness:
  "cacheSlotExists exampleConfig examplePattern \<and>
   cwidth (patternCanvas (freshState exampleConfig)) = tonePeriod exampleConfig \<and>
   cheight (patternCanvas (freshState exampleConfig)) = tonePeriod exampleConfig \<and>
   map_of (tones exampleConfig) (toneType examplePattern) = Some [[1, 0], [0, 0]] \<and>
   tonePeriod exampleConfig \<le> length [[1, 0], [0, 0 :: nat]] \<and>
   patternImageDataCache (freshState exampleConfig) examplePattern = None \<and>
   (\<exists>tile s'. getPatternImageData exampleConfig examplePattern (freshState exampleConfig) = (Inr tile, s') \<and>
      tile ! (1 * tonePeriod exampleConfig + 0) = RGBA 0 0 0 255 \<and>
      tile ! (0 * tonePeriod exampleConfig + 0) = RGBA 255 255 255 255 \<and>
      patternImageDataCache s' examplePattern = Some tile \<and>
      getPatternImageData exampleConfig examplePattern s' = (Inr tile, s'))"
proof -
  have d: "cwidth (patternCanvas (freshState exampleConfig)) = tonePeriod exampleConfig"
          "cheight (patternCanvas (freshState exampleConfig)) = tonePeriod exampleConfig"
    by (simp_all add: freshState_def)
  have r: "tonePeriod exampleConfig \<le> length [[1, 0], [0, 0 :: nat]]"
    by (simp add: exampleConfig_def)
  have m: "patternImageDataCache (freshState exampleConfig) examplePattern = None"
    by (simp add: freshState_def)
  note T = getPatternImageData_hit_or_render[OF example_slot _ _ example_tone r]
  from T[OF d] m
  obtain tile s' where run: "getPatternImageData exampleConfig examplePattern (freshState exampleConfig) = (Inr tile, s')"
     and px: "\<forall>x < tonePeriod exampleConfig. \<forall>y < tonePeriod exampleConfig.
                  tile ! (y * tonePeriod exampleConfig + x) =
                    (case rgbOf exampleConfig (if bitmapAt [[1, 0], [0, 0]] ((y + offsetY examplePattern) mod tonePeriod exampleConfig)
                                                        ((x + offsetX examplePattern) mod tonePeriod exampleConfig) = Inr True
                                     then foregroundColor examplePattern else backgroundColor examplePattern)
                     of (r, g, b) \<Rightarrow> RGBA r g b 255)"
     and st: "patternImageDataCache s' = (patternImageDataCache (freshState exampleConfig))(examplePattern \<mapsto> tile)"
    by blast
  have p10: "tile ! (1 * tonePeriod exampleConfig + 0) = RGBA 0 0 0 255"
    using px[rule_format, of 0 1]
    by (simp add: exampleConfig_def examplePattern_def mkPattern_def bitmapAt_def exampleRgb_def)
  have p00: "tile ! (0 * tonePeriod exampleConfig + 0) = RGBA 255 255 255 255"
    using px[rule_format, of 0 0]
    by (simp add: exampleConfig_def examplePattern_def mkPattern_def bitmapAt_def exampleRgb_def)
  have d': "cwidth (patternCanvas s') = tonePeriod exampleConfig"
           "cheight (patternCanvas s') = tonePeriod exampleConfig"
    using getPatternImageData_wf[OF wfState_freshState, of exampleConfig examplePattern] run
    by (simp_all add: wfState_def)
  have hit: "getPatternImageData exampleConfig examplePattern s' = (Inr tile, s')"
    using T[OF d'] st by simp
  show ?thesis
    using example_slot d example_tone r m run p10 p00 st hit by auto
qed

lemma getPatternImageData_keeps:
  assumes "patternImageDataCache s k = Some t"
  shows "patternImageDataCache (snd (getPatternImageData cfg p s)) k = Some t"
proof (cases "cacheSlotExists cfg p")
  case False
  then show ?thesis using assms by (simp add: getPatternImageData_noslot)
next
  case slot: True
  then obtain bitmap where tone: "map_of (tones cfg) (toneType p) = Some bitmap"
    by (rule cacheSlot_tone)
  show ?thesis
  proof (cases "patternImageDataCache s p")
    case (Some t')
    then show ?thesis using assms by (simp add: getPatternImageData_hit[OF slot Some])
  next
    case None
    then have ne: "k \<noteq> p" using assms by auto
    let ?loops = "forEachM (tonePeriodRange cfg) (\<lambda>y. forEachM (tonePeriodRange cfg) (fillPatternPixel cfg bitmap p y))"
    obtain r s1 where l: "?loops s = (r, s1)" by (cases "?loops s")
    have "sameButCanvas s s1"
      using render_loops_frame[of s "tonePeriodRange cfg" "tonePeriodRange cfg" cfg bitmap p] l by simp
    then have c1: "patternImageDataCache s1 = patternImageDataCache s" by (simp add: sameButCanvas_def)
    show ?thesis
      using slot None tone l c1 assms ne
      by (cases r; cases "getImageData (patternCanvas s1) 0 0 (tonePeriod cfg) (tonePeriod cfg)")
         (simp_all add: getPatternImageData_def monad_defs)
  qed
qed

lemma renderMany_keeps:
  assumes "patternImageDataCache s k = Some t"
  shows "patternImageDataCache (renderMany cfg ks s) k = Some t"
  using assms by (induction ks arbitrary: s) (simp_all add: getPatternImageData_keeps)

lemma renderMany_wf: "wfState cfg s \<Longrightarrow> wfState cfg (renderMany cfg ks s)"
  by (induction ks arbitrary: s) (simp_all add: getPatternImageData_wf)

text \<open>
  Claim C7. From a state the module can be in, rendering a key a second time gives the
  result of the first render; the result for a key does not depend on which other keys
  were rendered before it, nor on their order; and an entry of the cache, once set, is
  still there with the same tile after any sequence of renders.
\<close>

theorem patternImageDataCache_idempotent_write_once:
  assumes wf: "wfState cfg s"
  shows "fst (getPatternImageData cfg p (snd (getPatternImageData cfg p s))) = fst (getPatternImageData cfg p s) \<and>
         fst (getPatternImageData cfg p (renderMany cfg ks1 s)) = fst (getPatternImageData cfg p (renderMany cfg ks2 s)) \<and>
         (\<forall>k t. patternImageDataCache s k = Some t \<longrightarrow>
                  patternImageDataCache (renderMany cfg ks1 s) k = Some t)"
proof (intro conjI allI impI)
  have wf1: "wfState cfg (snd (getPatternImageData cfg p s))"
    using getPatternImageData_wf[OF wf, of p] by simp
  show "fst (getPatternImageData cfg p (snd (getPatternImageData cfg p s))) = fst (getPatternImageData cfg p s)"
    using getPatternImageData_wf[OF wf1, of p] getPatternImageData_wf[OF wf, of p] by simp
  show "fst (getPatternImageData cfg p (renderMany cfg ks1 s)) = fst (getPatternImageData cfg p (renderMany cfg ks2 s))"
    using getPatternImageData_wf[OF renderMany_wf[OF wf, of ks1], of p]
          getPatternImageData_wf[OF renderMany_wf[OF wf, of ks2], of p] by simp
  fix k t assume "patternImageDataCache s k = Some t"
  then show "patternImageDataCache (renderMany cfg ks1 s) k = Some t" by (rule renderMany_keeps)
qed

theorem patternImageDataCache_idempotent_write_once_witness:
  "wfState exampleConfig (freshState exampleConfig) \<and>
   fst (getPatternImageData exampleConfig examplePattern
          (snd (getPatternImageData exampleConfig examplePattern (freshState exampleConfig))))
     = fst (getPatternImageData exampleConfig examplePattern (freshState exampleConfig)) \<and>
   fst (getPatternImageData exampleConfig examplePattern
          (renderMany exampleConfig examplePatterns (freshState exampleConfig)))
     = fst (getPatternImageData exampleConfig examplePattern
          (renderMany exampleConfig (rev examplePatterns) (freshState exampleConfig)))"
  using patternImageDataCache_idempotent_write_once[OF wfState_freshState,
          of exampleConfig examplePattern examplePatterns "rev examplePatterns"]
        wfState_freshState[of exampleConfig]
  by blast

subsection \<open>The search for the best pattern\<close>

text \<open>
From a state the module can be in, \<open>getBestPattern\<close> returns what \<open>selectBest\<close>
  computes without state, and the distance of a candidate is the Euclidean distance of
  the window to its tile.
\<close>

lemma foldM_pure:
  assumes step: "\<And>acc x s. I s \<Longrightarrow> fst (f acc x s) = g acc x \<and> I (snd (f acc x s))" and "I s"
  shows "fst (foldM f xs acc s) = foldE g xs acc \<and> I (snd (foldM f xs acc s))"
  using assms(2)
proof (induction xs arbitrary: acc s)
  case Nil
  then show ?case by (simp add: monad_defs)
next
  case (Cons x xs)
  obtain r s1 where fx: "f acc x s = (r, s1)" by (cases "f acc x s")
  with step[OF Cons.prems, of acc x] have r: "r = g acc x" and I1: "I s1" by simp_all
  show ?case
  proof (cases r)
    case (Inl e)
    then show ?thesis using fx r I1 by (simp add: bindM_def)
  next
    case (Inr v)
    then show ?thesis using fx r Cons.IH[OF I1, of v] by (simp add: bindM_def)
  qed
qed

lemma patternDistance_pure:
  assumes "wfState cfg s"
  shows "fst (patternDistance cfg data p s) = windowDistance cfg data p \<and>
         wfState cfg (snd (patternDistance cfg data p s)) \<and>
         searchLog (snd (patternDistance cfg data p s)) = searchLog s"
proof -
  let ?I = "\<lambda>s'. wfState cfg s' \<and> searchLog s' = searchLog s"
  let ?f = "\<lambda>distance (k, px).
              if alpha px \<noteq> 255 then returnM distance
              else bindM (getPatternImageData cfg p) (\<lambda>patternImageData.
                     returnM (jsAdd distance (pixelDistance px (nthOpt patternImageData k))))"
  have step: "fst (?f acc x s') = distanceStep cfg p acc x \<and> ?I (snd (?f acc x s'))" if "?I s'" for acc x s'
  proof -
    obtain r s1 where g: "getPatternImageData cfg p s' = (r, s1)" by (cases "getPatternImageData cfg p s'")
    with getPatternImageData_wf[of cfg s' p] that
    have "r = lookupTile cfg p" "wfState cfg s1" "searchLog s1 = searchLog s" by simp_all
    then show ?thesis using that g
      by (cases x) (auto simp: distanceStep_def monad_defs split: sum.splits)
  qed
  have "fst (foldM ?f (enumerate 0 data) (Num 0) s) = foldE (distanceStep cfg p) (enumerate 0 data) (Num 0)
        \<and> ?I (snd (foldM ?f (enumerate 0 data) (Num 0) s))"
    by (rule foldM_pure[where I = ?I]) (use step assms in auto)
  then show ?thesis by (simp add: patternDistance_def windowDistance_def)
qed

lemma getBestPattern_pure:
  assumes "wfState cfg s"
  shows "fst (getBestPattern cfg data patterns s) = selectBest cfg data patterns \<and>
         wfState cfg (snd (getBestPattern cfg data patterns s)) \<and>
         searchLog (snd (getBestPattern cfg data patterns s)) = searchLog s @ [(data, patterns)]"
proof -
  let ?s0 = "s\<lparr>searchLog := searchLog s @ [(data, patterns)]\<rparr>"
  let ?I = "\<lambda>s'. wfState cfg s' \<and> searchLog s' = searchLog s @ [(data, patterns)]"
  let ?f = "\<lambda>(bestPattern, bestPatternDistance) pattern.
                      bindM (patternDistance cfg data pattern) (\<lambda>distance.
                        returnM (if jsLt distance bestPatternDistance
                                 then (Some pattern, distance)
                                 else (bestPattern, bestPatternDistance)))"
  let ?init = "(case patterns of [] \<Rightarrow> None | p # _ \<Rightarrow> Some p, PInf)"
  have step: "fst (?f acc x s') = bestStep cfg data acc x \<and> ?I (snd (?f acc x s'))" if "?I s'" for acc x s'
  proof -
    obtain r s1 where g: "patternDistance cfg data x s' = (r, s1)" by (cases "patternDistance cfg data x s'")
    with patternDistance_pure[of cfg s' data x] that
    have "r = windowDistance cfg data x" "wfState cfg s1" "searchLog s1 = searchLog s @ [(data, patterns)]" by simp_all
    then show ?thesis using that g
      by (cases acc) (auto simp: bestStep_def monad_defs split: sum.splits)
  qed
  have I0: "?I ?s0" using assms by (simp add: wfState_def)
  have fold: "fst (foldM ?f patterns ?init ?s0) = foldE (bestStep cfg data) patterns ?init
        \<and> ?I (snd (foldM ?f patterns ?init ?s0))"
    by (rule foldM_pure[where I = ?I]) (use step I0 in auto)
  obtain r s1 where g: "foldM ?f patterns ?init ?s0 = (r, s1)" by (cases "foldM ?f patterns ?init ?s0")
  with fold have "r = foldE (bestStep cfg data) patterns ?init" "?I s1" by simp_all
  then show ?thesis using g
    by (auto simp: getBestPattern_def selectBest_def monad_defs split: sum.splits prod.splits)
qed

lemmas getBestPattern_result = getBestPattern_pure[THEN conjunct1]

lemmas getBestPattern_wf = getBestPattern_pure[THEN conjunct2, THEN conjunct1]

lemmas getBestPattern_log = getBestPattern_pure[THEN conjunct2, THEN conjunct2]

lemma pixelDistance_Some: "pixelDistance d (Some t) = Num (of_int (squaredDistance d t))"
  by (simp add: pixelDistance_def channelDistance_def jsSub_def byteNum_def squaredDistance_def power2_eq_square)

lemma foldE_distance:
  assumes "lookupTile cfg p = Inr tile" and "k + length xs \<le> length tile"
  shows "foldE (distanceStep cfg p) (enumerate k xs) (Num a) =
           Inr (Num (a + of_int (euclideanDistance xs (drop k tile))))"
  using assms(2)
proof (induction xs arbitrary: k a)
  case Nil
  show ?case by (simp add: euclideanDistance_def)
next
  case (Cons x xs)
  then have k: "k < length tile" and rest: "Suc k + length xs \<le> length tile" by simp_all
  have dr: "drop k tile = tile ! k # drop (Suc k) tile"
    using k by (simp add: Cons_nth_drop_Suc)
  show ?case
    using Cons.IH[OF rest] k assms(1)
    by (simp add: distanceStep_def dr euclideanDistance_def nthOpt_def pixelDistance_Some)
qed

lemma windowDistance_euclidean:
  assumes "lookupTile cfg p = Inr tile" and "length data \<le> length tile"
  shows "windowDistance cfg data p = Inr (Num (of_int (euclideanDistance data tile)))"
  using foldE_distance[OF assms(1), of 0 data 0] assms(2) by (simp add: windowDistance_def)

lemma keepFirstLowest_spec:
  "\<exists>i < length (b # ps). keepFirstLowest f b ps = (b # ps) ! i \<and>
     (\<forall>j < length (b # ps). f ((b # ps) ! i) \<le> f ((b # ps) ! j)) \<and>
     (\<forall>j < i. f ((b # ps) ! i) < f ((b # ps) ! j))"
proof (induction ps rule: rev_induct)
  case Nil
  show ?case by (simp add: keepFirstLowest_def)
next
  case (snoc x ps)
  then obtain i where i: "i < length (b # ps)" "keepFirstLowest f b ps = (b # ps) ! i"
      and le: "\<forall>j < length (b # ps). f ((b # ps) ! i) \<le> f ((b # ps) ! j)"
      and lt: "\<forall>j < i. f ((b # ps) ! i) < f ((b # ps) ! j)" by blast
  have nth_old: "(b # ps @ [x]) ! j = (b # ps) ! j" if "j < length (b # ps)" for j
    using that by (metis append_Cons nth_append)
  have nth_new: "(b # ps @ [x]) ! length (b # ps) = x"
    by (metis append_Cons nth_append_length)
  show ?case
  proof (cases "f x < f ((b # ps) ! i)")
    case True
    have "keepFirstLowest f b (ps @ [x]) = x" using True i(2) by (simp add: keepFirstLowest_def)
    moreover have "\<forall>j < length (b # ps @ [x]). f x \<le> f ((b # ps @ [x]) ! j)"
    proof (intro allI impI)
      fix j assume "j < length (b # ps @ [x])"
      then consider "j < length (b # ps)" | "j = length (b # ps)" by fastforce
      then show "f x \<le> f ((b # ps @ [x]) ! j)"
      proof cases
        case 1 then show ?thesis using le True nth_old[OF 1] by fastforce
      next
        case 2 then show ?thesis using nth_new by simp
      qed
    qed
    moreover have "\<forall>j < length (b # ps). f x < f ((b # ps @ [x]) ! j)"
      using le True nth_old by fastforce
    ultimately show ?thesis
      using nth_new by (intro exI[of _ "length (b # ps)"]) auto
  next
    case False
    have k: "keepFirstLowest f b (ps @ [x]) = (b # ps @ [x]) ! i"
      using False i by (simp add: keepFirstLowest_def nth_old del: nth_Cons_Suc)
    have "\<forall>j < length (b # ps @ [x]). f ((b # ps @ [x]) ! i) \<le> f ((b # ps @ [x]) ! j)"
    proof (intro allI impI)
      fix j assume "j < length (b # ps @ [x])"
      then consider "j < length (b # ps)" | "j = length (b # ps)" by fastforce
      then show "f ((b # ps @ [x]) ! i) \<le> f ((b # ps @ [x]) ! j)"
      proof cases
        case 1 then show ?thesis using le nth_old[OF 1] nth_old[OF i(1)] by simp
      next
        case 2 then show ?thesis using nth_new False nth_old[OF i(1)] by simp
      qed
    qed
    moreover have "\<forall>j < i. f ((b # ps @ [x]) ! i) < f ((b # ps @ [x]) ! j)"
      using lt i(1) nth_old by (metis less_trans)
    ultimately show ?thesis using i(1) k by (intro exI[of _ i]) auto
  qed
qed

lemma keepFirstLowest_in: "keepFirstLowest f b ps \<in> set (b # ps)"
  using keepFirstLowest_spec[of b ps f] by (metis nth_mem)

lemma bestStep_finite:
  assumes "windowDistance cfg data x = Inr (Num (of_int (f x)))"
  shows "bestStep cfg data (Some b, Num (of_int (f b))) x =
           Inr (if f x < f b then (Some x, Num (of_int (f x))) else (Some b, Num (of_int (f b))))"
    and "bestStep cfg data (Some b, PInf) x = Inr (Some x, Num (of_int (f x)))"
  using assms by (simp_all add: bestStep_def)

lemma foldE_bestStep:
  assumes "\<forall>p \<in> set ps. windowDistance cfg data p = Inr (Num (of_int (f p)))"
  shows "foldE (bestStep cfg data) ps (Some b, Num (of_int (f b))) =
           Inr (Some (keepFirstLowest f b ps), Num (of_int (f (keepFirstLowest f b ps))))"
  using assms
proof (induction ps arbitrary: b)
  case Nil
  show ?case by (simp add: keepFirstLowest_def)
next
  case (Cons x ps)
  then have IH: "foldE (bestStep cfg data) ps (Some b', Num (of_int (f b'))) =
           Inr (Some (keepFirstLowest f b' ps), Num (of_int (f (keepFirstLowest f b' ps))))" for b'
    by simp
  have x: "windowDistance cfg data x = Inr (Num (of_int (f x)))" using Cons.prems by simp
  show ?case
    using IH[of x] IH[of b] by (simp add: bestStep_finite(1)[where f = f, OF x] keepFirstLowest_def)
qed

lemma selectBest_finite:
  assumes "\<forall>p \<in> set (p0 # ps). windowDistance cfg data p = Inr (Num (of_int (f p)))"
  shows "selectBest cfg data (p0 # ps) = Inr (Some (keepFirstLowest f p0 ps))"
proof -
  have p0: "windowDistance cfg data p0 = Inr (Num (of_int (f p0)))" using assms by simp
  have "foldE (bestStep cfg data) (p0 # ps) (Some p0, PInf) =
          foldE (bestStep cfg data) ps (Some p0, Num (of_int (f p0)))"
    by (simp add: bestStep_finite(2)[where f = f, OF p0])
  also have "\<dots> = Inr (Some (keepFirstLowest f p0 ps), Num (of_int (f (keepFirstLowest f p0 ps))))"
    using assms by (intro foldE_bestStep) simp
  finally show ?thesis by (simp add: selectBest_def)
qed

lemma lookupTile_valid:
  assumes "cacheSlotExists cfg p" "tonesCoverPeriod cfg"
  shows "lookupTile cfg p = Inr (patternTile cfg p)"
    and "length (patternTile cfg p) = tonePeriod cfg * tonePeriod cfg"
proof -
  from assms(1) obtain bitmap where tone: "map_of (tones cfg) (toneType p) = Some bitmap"
    by (rule cacheSlot_tone)
  then have "(toneType p, bitmap) \<in> set (tones cfg)" by (rule map_of_SomeD)
  then have len: "tonePeriod cfg \<le> length bitmap" using assms(2) by (auto simp: tonesCoverPeriod_def)
  have pos: "0 < tonePeriod cfg" using assms(1) by (auto simp: cacheSlotExists_def)
  have "rowsExist cfg bitmap p"
    unfolding rowsExist_def
  proof
    fix y
    have "(y + offsetY p) mod tonePeriod cfg < tonePeriod cfg" using pos by simp
    then show "(y + offsetY p) mod tonePeriod cfg < length bitmap" using len by simp
  qed
  then show "lookupTile cfg p = Inr (patternTile cfg p)"
    using assms(1) tone by (simp add: lookupTile_def patternTile_def)
  show "length (patternTile cfg p) = tonePeriod cfg * tonePeriod cfg"
    using tone by (simp add: patternTile_def length_renderedTile)
qed

lemma example_slots: "\<forall>p \<in> set examplePatterns. cacheSlotExists exampleConfig p"
  by (simp add: examplePatterns_def cacheSlotExists_def exampleConfig_def colors_def mkPattern_def)

lemma example_tonesCoverPeriod: "tonesCoverPeriod exampleConfig"
  by (simp add: tonesCoverPeriod_def exampleConfig_def)

text \<open>
  Claim C2. For a non-empty list of candidates and a window no longer than a tile,
  \<open>getBestPattern\<close> returns the candidate at the first index \<open>i\<close> whose accumulated
  distance is the lowest: no candidate is lower, and every earlier one is strictly
  higher, so a later candidate with an equal distance never replaces it. The distance the
  loop accumulates for a candidate is the sum of the squared channel differences over the
  opaque pixels of the window. The candidates have a slot in the cache and every tone
  bitmap has a row for each row of the period (otherwise the lookup or the rendering
  raises); the state is one the module can be in.
\<close>

theorem getBestPattern_first_strictly_lowest:
  assumes wf: "wfState cfg s" and ne: "patterns \<noteq> []"
      and slots: "\<forall>p \<in> set patterns. cacheSlotExists cfg p"
      and rows: "tonesCoverPeriod cfg"
      and len: "length data \<le> tonePeriod cfg * tonePeriod cfg"
  shows "\<exists>i < length patterns.
           fst (getBestPattern cfg data patterns s) = Inr (Some (patterns ! i)) \<and>
           (\<forall>j < length patterns.
              fst (patternDistance cfg data (patterns ! j) s) =
                Inr (Num (of_int (euclideanDistance data (patternTile cfg (patterns ! j)))))) \<and>
           (\<forall>j < length patterns.
              euclideanDistance data (patternTile cfg (patterns ! i))
                \<le> euclideanDistance data (patternTile cfg (patterns ! j))) \<and>
           (\<forall>j < i.
              euclideanDistance data (patternTile cfg (patterns ! i))
                < euclideanDistance data (patternTile cfg (patterns ! j)))"
proof -
  let ?f = "\<lambda>p. euclideanDistance data (patternTile cfg p)"
  from ne obtain p0 ps where pats: "patterns = p0 # ps" by (cases patterns) auto
  have dist: "windowDistance cfg data p = Inr (Num (of_int (?f p)))" if "p \<in> set patterns" for p
    using that slots rows len lookupTile_valid[of cfg p]
    by (intro windowDistance_euclidean) auto
  have best: "fst (getBestPattern cfg data patterns s) = Inr (Some (keepFirstLowest ?f p0 ps))"
    using getBestPattern_pure[OF wf, of data patterns] selectBest_finite[of p0 ps cfg data ?f] dist
    by (simp add: pats)
  have code: "fst (patternDistance cfg data (patterns ! j) s) = Inr (Num (of_int (?f (patterns ! j))))"
    if "j < length patterns" for j
    using patternDistance_pure[OF wf, of data "patterns ! j"] dist[of "patterns ! j"] that by simp
  from keepFirstLowest_spec[of p0 ps ?f]
  obtain i where "i < length patterns" "keepFirstLowest ?f p0 ps = patterns ! i"
    "\<forall>j < length patterns. ?f (patterns ! i) \<le> ?f (patterns ! j)"
    "\<forall>j < i. ?f (patterns ! i) < ?f (patterns ! j)"
    unfolding pats by blast
  then show ?thesis using best code by (intro exI[of _ i]) simp
qed

theorem getBestPattern_first_strictly_lowest_witness:
  "wfState exampleConfig (freshState exampleConfig) \<and> examplePatterns \<noteq> [] \<and>
   list_all (cacheSlotExists exampleConfig) examplePatterns \<and>
   tonesCoverPeriod exampleConfig \<and>
   length exampleWindow \<le> tonePeriod exampleConfig * tonePeriod exampleConfig \<and>
   (\<exists>i < length examplePatterns.
           fst (getBestPattern exampleConfig exampleWindow examplePatterns (freshState exampleConfig))
             = Inr (Some (examplePatterns ! i)) \<and>
           (\<forall>j < length examplePatterns.
              fst (patternDistance exampleConfig exampleWindow (examplePatterns ! j) (freshState exampleConfig)) =
                Inr (Num (of_int (euclideanDistance exampleWindow (patternTile exampleConfig (examplePatterns ! j)))))) \<and>
           (\<forall>j < length examplePatterns.
              euclideanDistance exampleWindow (patternTile exampleConfig (examplePatterns ! i))
                \<le> euclideanDistance exampleWindow (patternTile exampleConfig (examplePatterns ! j))) \<and>
           (\<forall>j < i.
              euclideanDistance exampleWindow (patternTile exampleConfig (examplePatterns ! i))
                < euclideanDistance exampleWindow (patternTile exampleConfig (examplePatterns ! j))))"
proof -
  have h2: "examplePatterns \<noteq> []" by (simp add: examplePatterns_def)
  have h5: "length exampleWindow \<le> tonePeriod exampleConfig * tonePeriod exampleConfig"
    by (simp add: exampleWindow_def exampleConfig_def)
  show ?thesis
    using getBestPattern_first_strictly_lowest[OF wfState_freshState h2 example_slots example_tonesCoverPeriod h5]
      wfState_freshState h2 example_slots example_tonesCoverPeriod h5
    unfolding list_all_iff by blast
qed

lemma distance_loop_no_opaque:
  assumes "\<forall>px \<in> set xs. alpha px \<noteq> 255"
  shows "foldM (\<lambda>distance (k, px).
              if alpha px \<noteq> 255 then returnM distance
              else bindM (getPatternImageData cfg p) (\<lambda>patternImageData.
                     returnM (jsAdd distance (pixelDistance px (nthOpt patternImageData k)))))
           (enumerate k xs) acc s = (Inr acc, s)"
  using assms by (induction xs arbitrary: k) (simp_all add: monad_defs)

lemma patternDistance_no_opaque:
  assumes "\<forall>px \<in> set data. alpha px \<noteq> 255"
  shows "patternDistance cfg data p s = (Inr (Num 0), s)"
  unfolding patternDistance_def using assms by (rule distance_loop_no_opaque)

text \<open>
  Claim C6. When no pixel of the window has alpha 255, the loop of every candidate
  ends with distance 0 without touching the state, and \<open>getBestPattern\<close> returns the
  first candidate of a non-empty list, whatever the colour values of the window and
  whatever the candidates are; nothing is raised.
\<close>

theorem getBestPattern_no_opaque_pixel:
  assumes "patterns \<noteq> []" and "\<forall>px \<in> set data. alpha px \<noteq> 255"
  shows "(\<forall>p \<in> set patterns. \<forall>s'. patternDistance cfg data p s' = (Inr (Num 0), s')) \<and>
         getBestPattern cfg data patterns s =
           (Inr (Some (hd patterns)), s\<lparr>searchLog := searchLog s @ [(data, patterns)]\<rparr>)"
proof -
  from assms(1) obtain p0 ps where pats: "patterns = p0 # ps" by (cases patterns) auto
  define F where "F = (\<lambda>(bestPattern, bestPatternDistance) pattern.
                      bindM (patternDistance cfg data pattern) (\<lambda>distance.
                        returnM (if jsLt distance bestPatternDistance
                                 then (Some pattern, distance)
                                 else (bestPattern, bestPatternDistance))))"
  have later: "foldM F qs (Some b, Num 0) s' = (Inr (Some b, Num 0), s')" for qs b s'
    by (induction qs) (simp_all add: F_def monad_defs patternDistance_no_opaque[OF assms(2)])
  have first: "F (Some p0, PInf) p0 s' = (Inr (Some p0, Num 0), s')" for s'
    by (simp add: F_def monad_defs patternDistance_no_opaque[OF assms(2)])
  have loop: "foldM F (p0 # ps) (Some p0, PInf) s' = (Inr (Some p0, Num 0), s')" for s'
    by (simp add: bindM_def first later)
  have "getBestPattern cfg data patterns s =
          (Inr (Some (hd patterns)), s\<lparr>searchLog := searchLog s @ [(data, patterns)]\<rparr>)"
    unfolding getBestPattern_def F_def[symmetric] pats
    by (simp add: bindM_def first later returnM_def)
  then show ?thesis
    using patternDistance_no_opaque[OF assms(2)] by simp
qed

theorem getBestPattern_no_opaque_pixel_witness:
  "examplePatterns \<noteq> [] \<and> list_all (\<lambda>px. alpha px \<noteq> 255) exampleHiddenWindow \<and>
   patternDistance exampleConfig exampleHiddenWindow (examplePatterns ! 1) (freshState exampleConfig)
     = (Inr (Num 0), freshState exampleConfig) \<and>
   getBestPattern exampleConfig exampleHiddenWindow examplePatterns (freshState exampleConfig) =
     (Inr (Some (hd examplePatterns)),
      (freshState exampleConfig)\<lparr>searchLog := searchLog (freshState exampleConfig) @ [(exampleHiddenWindow, examplePatterns)]\<rparr>)"
proof -
  have h1: "examplePatterns \<noteq> []" by (simp add: examplePatterns_def)
  have h2: "\<forall>px \<in> set exampleHiddenWindow. alpha px \<noteq> 255" by (simp add: exampleHiddenWindow_def)
  have m: "examplePatterns ! 1 \<in> set examplePatterns" by (simp add: examplePatterns_def)
  show ?thesis
    using getBestPattern_no_opaque_pixel[OF h1 h2, of exampleConfig "freshState exampleConfig"] h1 h2 m
    unfolding list_all_iff by blast
qed

subsection \<open>Window normalization\<close>

lemma grayscalePass_fst:
  "fst (grayscalePass w) = map (\<lambda>px. if alpha px \<noteq> 255 then px else grayPixel px) w"
  by (induction w) (auto simp: grayPixel_def lightnessOf_def Let_def split: prod.splits)

lemma grayscalePass_snd:
  "snd (grayscalePass w) = map lightnessOf (filter isOpaque w)"
  by (induction w) (auto simp: isOpaque_def lightnessOf_def Let_def split: prod.splits)

lemma normalizeWindow_eq:
  "normalizeWindow w =
     rescalePass (mathMin (map lightnessOf (filter isOpaque w)))
                 (mathMax (map lightnessOf (filter isOpaque w)))
                 (fst (grayscalePass w))"
  using grayscalePass_snd[of w]
  by (cases "grayscalePass w") (simp add: normalizeWindow_def Let_def)

lemma length_normalizeWindow: "length (normalizeWindow w) = length w"
  by (simp add: normalizeWindow_eq rescalePass_def grayscalePass_fst)

text \<open>
  Claim C9. Normalization keeps the length of the window. A pixel whose alpha is not
  255 is left as it is by the grayscale pass and by the whole normalization, all four
  bytes; an opaque pixel stays opaque. The lightnesses collected by the first pass are
  those of the opaque pixels only, so the minimum and maximum that the rescaling uses are
  taken over the opaque pixels.
\<close>

theorem normalizeWindow_skips_transparent:
  "length (normalizeWindow w) = length w \<and>
   (\<forall>i < length w. alpha (w ! i) \<noteq> 255 \<longrightarrow>
        fst (grayscalePass w) ! i = w ! i \<and> normalizeWindow w ! i = w ! i) \<and>
   (\<forall>i < length w. alpha (w ! i) = 255 \<longrightarrow> alpha (normalizeWindow w ! i) = 255) \<and>
   snd (grayscalePass w) = map lightnessOf (filter isOpaque w) \<and>
   normalizeWindow w =
     rescalePass (mathMin (map lightnessOf (filter isOpaque w)))
                 (mathMax (map lightnessOf (filter isOpaque w)))
                 (fst (grayscalePass w))"
  by (simp add: normalizeWindow_eq[symmetric] grayscalePass_snd)
     (simp add: normalizeWindow_eq rescalePass_def grayscalePass_fst grayPixel_def Let_def)

theorem normalizeWindow_skips_transparent_witness:
  "3 < length exampleWindow \<and> alpha (exampleWindow ! 3) \<noteq> 255 \<and>
   length (normalizeWindow exampleWindow) = length exampleWindow \<and>
   fst (grayscalePass exampleWindow) ! 3 = exampleWindow ! 3 \<and>
   normalizeWindow exampleWindow ! 3 = exampleWindow ! 3"
proof -
  have h: "3 < length exampleWindow" "alpha (exampleWindow ! 3) \<noteq> 255"
    by (simp_all add: exampleWindow_def)
  show ?thesis
    using normalizeWindow_skips_transparent[of exampleWindow] h by blast
qed

subsection \<open>Phase offsets\<close>

lemma truncate_frac: "\<bar>q - of_int (truncate q)\<bar> < 1"
proof (cases "q < 0")
  case True
  have "0 \<le> - q - of_int \<lfloor>- q\<rfloor>" "- q - of_int \<lfloor>- q\<rfloor> < 1" by linarith+
  then have "\<bar>q + of_int \<lfloor>- q\<rfloor>\<bar> < 1" by linarith
  then show ?thesis using True by (simp add: truncate_def)
next
  case False
  have "0 \<le> q - of_int \<lfloor>q\<rfloor>" "q - of_int \<lfloor>q\<rfloor> < 1" by linarith+
  then have "\<bar>q - of_int \<lfloor>q\<rfloor>\<bar> < 1" by linarith
  then show ?thesis using False by (simp add: truncate_def)
qed

lemma jsRemainder_bound:
  assumes "0 < b"
  shows "\<bar>jsRemainder a b\<bar> < b"
proof -
  have "jsRemainder a b = b * (a / b - of_int (truncate (a / b)))"
    using assms by (simp add: jsRemainder_def algebra_simps)
  then have "\<bar>jsRemainder a b\<bar> = b * \<bar>a / b - of_int (truncate (a / b))\<bar>"
    using assms by (simp add: abs_mult)
  also have "\<dots> < b * 1"
    using assms truncate_frac[of "a / b"] by (intro mult_strict_left_mono) simp_all
  finally show ?thesis by simp
qed

lemma phaseOffset_integer:
  assumes "even (tonePeriod cfg)"
  shows "\<exists>k::int. phaseOffset cfg x = of_int k"
proof -
  obtain h where h: "tonePeriod cfg = 2 * h" using assms by (auto elim: evenE)
  have wb: "windowBegin cfg x = of_int (int x - int h)"
    by (simp add: windowBegin_def h)
  have "jsRemainder (windowBegin cfg x) (of_nat (tonePeriod cfg)) =
          of_int (int x - int h - int (tonePeriod cfg) * truncate (windowBegin cfg x / of_nat (tonePeriod cfg)))"
    unfolding jsRemainder_def wb by simp
  then have "phaseOffset cfg x =
      of_int \<bar>int x - int h - int (tonePeriod cfg) * truncate (windowBegin cfg x / of_nat (tonePeriod cfg))\<bar>"
    unfolding phaseOffset_def by (simp only: of_int_abs)
  then show ?thesis by blast
qed

text \<open>
  Claim C10. For every cell coordinate \<open>x\<close> (a natural number) and a positive period,
  \<^verbatim>\<open>Math.abs((x - tonePeriod / 2) % tonePeriod)\<close> lies in \<open>[0, tonePeriod)\<close>, the index
  taken from it is below the period, and so is every bitmap index
  \<open>(y + offset) mod tonePeriod\<close>. When the period is even the offset is an integer, and
  a pattern built from it with a tone of \<open>tones\<close> and two colours of \<open>colors\<close> has a
  slot in the cache.
\<close>

theorem phaseOffset_in_period:
  assumes pos: "0 < tonePeriod cfg"
  shows "0 \<le> phaseOffset cfg x \<and> phaseOffset cfg x < of_nat (tonePeriod cfg) \<and>
         offsetIndex cfg x < tonePeriod cfg \<and>
         (y + offsetIndex cfg x) mod tonePeriod cfg < tonePeriod cfg \<and>
         (even (tonePeriod cfg) \<longrightarrow>
            of_nat (offsetIndex cfg x) = phaseOffset cfg x \<and>
            (\<forall>t bg fg ox. t \<in> set (map fst (tones cfg)) \<and> bg \<in> set (colors cfg) \<and> fg \<in> set (colors cfg)
                \<longrightarrow> cacheSlotExists cfg (mkPattern t bg fg (offsetIndex cfg x) ox)))"
proof -
  have nn: "0 \<le> phaseOffset cfg x" by (simp add: phaseOffset_def)
  have lt: "phaseOffset cfg x < of_nat (tonePeriod cfg)"
    unfolding phaseOffset_def using pos by (intro jsRemainder_bound) simp
  have "\<lfloor>phaseOffset cfg x\<rfloor> < int (tonePeriod cfg)"
    using lt by (simp add: floor_less_iff)
  then have idx: "offsetIndex cfg x < tonePeriod cfg"
    using nn by (simp add: offsetIndex_def nat_less_iff)
  have exact: "of_nat (offsetIndex cfg x) = phaseOffset cfg x" if "even (tonePeriod cfg)"
  proof -
    from phaseOffset_integer[OF that] obtain k :: int where k: "phaseOffset cfg x = of_int k" by blast
    then have "0 \<le> k" using nn by simp
    then show ?thesis by (simp add: offsetIndex_def k)
  qed
  show ?thesis
    using nn lt idx exact pos by (auto simp: cacheSlotExists_def mkPattern_def)
qed

theorem phaseOffset_in_period_witness:
  "0 < tonePeriod exampleConfig \<and> even (tonePeriod exampleConfig) \<and>
   ''dot'' \<in> set (map fst (tones exampleConfig)) \<and> ''white'' \<in> set (colors exampleConfig) \<and>
   ''black'' \<in> set (colors exampleConfig) \<and>
   0 \<le> phaseOffset exampleConfig 3 \<and> phaseOffset exampleConfig 3 < of_nat (tonePeriod exampleConfig) \<and>
   offsetIndex exampleConfig 3 < tonePeriod exampleConfig \<and>
   of_nat (offsetIndex exampleConfig 3) = phaseOffset exampleConfig 3 \<and>
   cacheSlotExists exampleConfig (mkPattern ''dot'' ''white'' ''black'' (offsetIndex exampleConfig 3) 0)"
proof -
  have h: "0 < tonePeriod exampleConfig" "even (tonePeriod exampleConfig)"
    "''dot'' \<in> set (map fst (tones exampleConfig))" "''white'' \<in> set (colors exampleConfig)"
    "''black'' \<in> set (colors exampleConfig)"
    by (simp_all add: exampleConfig_def colors_def)
  show ?thesis
    using phaseOffset_in_period[OF h(1), of 3 0] h by blast
qed

text \<open>The offset that the pattern of a cell carries: the index when the period is even,
  and an index without a slot in the cache when the period is odd, where the offset of
  the source is an odd multiple of a half.\<close>

lemma patternOffset_even:
  assumes "even (tonePeriod cfg)"
  shows "patternOffset cfg x = offsetIndex cfg x"
proof -
  from phaseOffset_integer[OF assms] obtain k :: int where k: "phaseOffset cfg x = of_int k" by blast
  moreover have "0 \<le> phaseOffset cfg x" by (simp add: phaseOffset_def)
  ultimately have "0 \<le> k" by simp
  then show ?thesis by (simp add: patternOffset_def offsetIndex_def k)
qed

lemma phaseOffset_odd:
  assumes "odd (tonePeriod cfg)"
  shows "\<exists>n :: int. odd n \<and> 2 * phaseOffset cfg x = of_int n"
proof -
  define k where "k = truncate (windowBegin cfg x / of_nat (tonePeriod cfg))"
  define n where "n = 2 * int x - int (tonePeriod cfg) - 2 * int (tonePeriod cfg) * k"
  have "2 * jsRemainder (windowBegin cfg x) (of_nat (tonePeriod cfg)) = of_int n"
    by (simp add: jsRemainder_def windowBegin_def k_def n_def algebra_simps)
  then have "2 * phaseOffset cfg x = of_int \<bar>n\<bar>"
    unfolding phaseOffset_def
    by (metis abs_mult abs_numeral of_int_abs)
  moreover have "odd \<bar>n\<bar>" using assms by (simp add: n_def)
  ultimately show ?thesis by blast
qed

lemma patternOffset_odd:
  assumes "odd (tonePeriod cfg)"
  shows "patternOffset cfg x = tonePeriod cfg"
    and "\<not> cacheSlotExists cfg (mkPattern t bg fg (patternOffset cfg x) ox)"
proof -
  from phaseOffset_odd[OF assms] obtain n :: int where
    n: "odd n" "2 * phaseOffset cfg x = of_int n" by blast
  have "phaseOffset cfg x \<noteq> of_nat (offsetIndex cfg x)"
  proof
    assume "phaseOffset cfg x = of_nat (offsetIndex cfg x)"
    then have "(of_int n :: rat) = of_int (2 * int (offsetIndex cfg x))" using n(2) by simp
    then have "n = 2 * int (offsetIndex cfg x)" by (simp only: of_int_eq_iff)
    then show False using n(1) by simp
  qed
  then show p: "patternOffset cfg x = tonePeriod cfg" by (simp add: patternOffset_def)
  show "\<not> cacheSlotExists cfg (mkPattern t bg fg (patternOffset cfg x) ox)"
    unfolding p by (simp add: cacheSlotExists_def mkPattern_def)
qed

subsection \<open>Error diffusion\<close>

lemma putPixel_dims [simp]:
  "cwidth (putPixel c a b px) = cwidth c" "cheight (putPixel c a b px) = cheight c"
  by (simp_all add: putPixel_def)

lemma inCanvas_putPixel [simp]: "inCanvas (putPixel c a b px) i j = inCanvas c i j"
  by (simp add: inCanvas_def)


lemma diffuseInto_dims [simp]:
  "cwidth (diffuseInto original put x y c e) = cwidth c"
  "cheight (diffuseInto original put x y c e) = cheight c"
  by (cases e; simp add: diffuseInto_def Let_def)+


lemma inCanvas_diffuseInto [simp]: "inCanvas (diffuseInto original put x y c e) i j = inCanvas c i j"
  by (simp add: inCanvas_def)




subsection \<open>Independence of the state of the module\<close>

lemma stateIndependentI:
  assumes "\<And>s1 s2. wfState cfg s1 \<Longrightarrow> wfState cfg s2 \<Longrightarrow> fst (m s1) = fst (m s2)"
      and "\<And>s. wfState cfg s \<Longrightarrow> wfState cfg (snd (m s))"
  shows "stateIndependent cfg m"
proof (unfold stateIndependent_def, intro allI impI conjI)
  fix s1 s2 assume wf: "wfState cfg s1" "wfState cfg s2"
  from wf show "fst (m s1) = fst (m s2)" by (rule assms(1))
  from wf(1) show "wfState cfg (snd (m s1))" by (rule assms(2))
qed

lemma stateIndependentD:
  assumes "stateIndependent cfg m" "wfState cfg s1" "wfState cfg s2"
  shows "fst (m s1) = fst (m s2)" and "wfState cfg (snd (m s1))" and "wfState cfg (snd (m s2))"
proof -
  note d = assms(1)[unfolded stateIndependent_def, rule_format]
  show "fst (m s1) = fst (m s2)" using d[OF assms(2) assms(3)] by simp
  show "wfState cfg (snd (m s1))" using d[OF assms(2) assms(3)] by simp
  show "wfState cfg (snd (m s2))" using d[OF assms(3) assms(3)] by simp
qed

lemma stateIndependent_returnM: "stateIndependent cfg (returnM v)"
  by (simp add: stateIndependent_def returnM_def)

lemma stateIndependent_throwM: "stateIndependent cfg (throwM e)"
  by (simp add: stateIndependent_def throwM_def)

lemma stateIndependent_liftE: "stateIndependent cfg (liftE r)"
  by (cases r) (simp_all add: liftE_def stateIndependent_returnM stateIndependent_throwM)

lemma stateIndependent_bindM:
  assumes m: "stateIndependent cfg m" and f: "\<And>v. stateIndependent cfg (f v)"
  shows "stateIndependent cfg (bindM m f)"
proof (rule stateIndependentI)
  fix s1 s2 assume wf: "wfState cfg s1" "wfState cfg s2"
  obtain r1 t1 where r1: "m s1 = (r1, t1)" by (cases "m s1")
  obtain r2 t2 where r2: "m s2 = (r2, t2)" by (cases "m s2")
  from stateIndependentD[OF m wf] r1 r2
  have eq: "r1 = r2" and w1: "wfState cfg t1" and w2: "wfState cfg t2" by simp_all
  show "fst (bindM m f s1) = fst (bindM m f s2)"
  proof (cases r1)
    case (Inl e)
    then show ?thesis using r1 r2 eq by (simp add: bindM_def)
  next
    case (Inr v)
    then show ?thesis
      using r1 r2 eq stateIndependentD(1)[OF f[of v] w1 w2] by (simp add: bindM_def)
  qed
next
  fix s assume wf: "wfState cfg s"
  obtain r t where r: "m s = (r, t)" by (cases "m s")
  from stateIndependentD(2)[OF m wf wf] r have w: "wfState cfg t" by simp
  show "wfState cfg (snd (bindM m f s))"
  proof (cases r)
    case (Inl e)
    then show ?thesis using r w by (simp add: bindM_def)
  next
    case (Inr v)
    then show ?thesis
      using r stateIndependentD(2)[OF f[of v] w w] by (simp add: bindM_def)
  qed
qed

lemma stateIndependent_foldM:
  assumes "\<And>acc x. stateIndependent cfg (f acc x)"
  shows "stateIndependent cfg (foldM f xs acc)"
proof (induction xs arbitrary: acc)
  case Nil
  show ?case by (simp add: stateIndependent_returnM)
next
  case (Cons x xs)
  show ?case
    unfolding foldM.simps
    by (rule stateIndependent_bindM) (rule assms, rule Cons.IH)
qed

lemma stateIndependent_getBestPattern: "stateIndependent cfg (getBestPattern cfg data patterns)"
proof (rule stateIndependentI)
  fix s1 s2 assume wf: "wfState cfg s1" "wfState cfg s2"
  show "fst (getBestPattern cfg data patterns s1) = fst (getBestPattern cfg data patterns s2)"
    unfolding getBestPattern_result[OF wf(1)] getBestPattern_result[OF wf(2)] ..
next
  fix s assume wf: "wfState cfg s"
  show "wfState cfg (snd (getBestPattern cfg data patterns s))"
    using wf by (rule getBestPattern_wf)
qed

lemma stateIndependent_bestOf: "stateIndependent cfg (bestOf cfg data patterns)"
  unfolding bestOf_def
proof (rule stateIndependent_bindM[OF stateIndependent_getBestPattern])
  fix best :: "Pattern option"
  show "stateIndependent cfg (case best of None \<Rightarrow> throwM TypeError | Some p \<Rightarrow> returnM p)"
    by (cases best) (simp_all add: stateIndependent_returnM stateIndependent_throwM)
qed

lemma stateIndependent_quantizeCell:
  "stateIndependent cfg (quantizeCell cfg normalizedData windowData oy ox)"
  unfolding quantizeCell_def Let_def
  by (intro stateIndependent_bindM stateIndependent_liftE stateIndependent_bestOf
        stateIndependent_returnM)

lemma stateIndependent_case_prod3:
  assumes "\<And>a b c. stateIndependent cfg (f a b c)"
  shows "stateIndependent cfg (case v of (a, b, c) \<Rightarrow> f a b c)"
  using assms by (cases v) simp

lemma stateIndependent_processCell: "stateIndependent cfg (processCell cfg zoom y x bufs)"
  unfolding processCell_def Let_def
  by (cases bufs)
     (simp, intro stateIndependent_bindM stateIndependent_liftE stateIndependent_quantizeCell
        stateIndependent_case_prod3 stateIndependent_returnM)

lemma stateIndependent_applyMibaeFilter: "stateIndependent cfg (applyMibaeFilter cfg zoom bufs)"
  unfolding applyMibaeFilter_def
  by (intro stateIndependent_foldM stateIndependent_processCell)

text \<open>
  Claim C8. What the filter computes from a configuration, a zoom and the two canvases
  (the shrinked source and the output) does not depend on the module state it starts
  from, the pattern cache and the pattern canvas, as long as that state is one the
  module can be in: two runs from any two such states give the same result, the same
  two canvases or the same error. So does a second run that starts in the state the
  first one left.
\<close>

theorem applyMibaeFilter_deterministic:
  assumes "wfState cfg s1" and "wfState cfg s2"
  shows "fst (applyMibaeFilter cfg zoom bufs s1) = fst (applyMibaeFilter cfg zoom bufs s2) \<and>
         fst (applyMibaeFilter cfg zoom bufs (snd (applyMibaeFilter cfg zoom bufs s1)))
           = fst (applyMibaeFilter cfg zoom bufs s1)"
proof -
  note si = stateIndependent_applyMibaeFilter[of cfg zoom bufs]
  have w: "wfState cfg (snd (applyMibaeFilter cfg zoom bufs s1))"
    by (rule stateIndependentD(2)[OF si assms(1) assms(1)])
  show ?thesis
    using stateIndependentD(1)[OF si assms] stateIndependentD(1)[OF si w assms(1)] by simp
qed

theorem applyMibaeFilter_deterministic_witness:
  "wfState exampleConfig (freshState exampleConfig) \<and>
   wfState exampleConfig (renderMany exampleConfig examplePatterns (freshState exampleConfig)) \<and>
   fst (applyMibaeFilter exampleConfig 2 (exampleSource, exampleOutput) (freshState exampleConfig))
     = fst (applyMibaeFilter exampleConfig 2 (exampleSource, exampleOutput)
              (renderMany exampleConfig examplePatterns (freshState exampleConfig))) \<and>
   fst (applyMibaeFilter exampleConfig 2 (exampleSource, exampleOutput)
          (snd (applyMibaeFilter exampleConfig 2 (exampleSource, exampleOutput) (freshState exampleConfig))))
     = fst (applyMibaeFilter exampleConfig 2 (exampleSource, exampleOutput) (freshState exampleConfig))"
proof -
  have w2: "wfState exampleConfig (renderMany exampleConfig examplePatterns (freshState exampleConfig))"
    by (rule renderMany_wf[OF wfState_freshState])
  show ?thesis
    using applyMibaeFilter_deterministic[OF wfState_freshState w2, of 2 "(exampleSource, exampleOutput)"]
      wfState_freshState[of exampleConfig] w2
    by blast
qed

subsection \<open>The searches of one cell\<close>

text \<open>
On a valid configuration no lookup raises, every list of candidates is non-empty and
  every candidate has a cache slot, so that each search returns one of its candidates.
\<close>

lemma mkPattern_sel [simp]:
  "toneType (mkPattern t bg fg oy ox) = t"
  "backgroundColor (mkPattern t bg fg oy ox) = bg"
  "foregroundColor (mkPattern t bg fg oy ox) = fg"
  "offsetY (mkPattern t bg fg oy ox) = oy"
  "offsetX (mkPattern t bg fg oy ox) = ox"
  by (simp_all add: mkPattern_def)

lemma firstColor_in: "palette \<noteq> [] \<Longrightarrow> firstColor palette \<in> set palette"
  by (cases palette) (simp_all add: firstColor_def)

lemma palette_in_colors:
  assumes "(name, palette) \<in> set (palettes cfg)"
  shows "set palette \<subseteq> set (colors cfg)"
  using assms by (force simp: colors_def)

lemma fromEntries_keys:
  "fst ` set (foldl (\<lambda>obj (k, v). AList.update k v obj) obj es) = fst ` set obj \<union> fst ` set es"
proof (induction es arbitrary: obj)
  case Nil
  show ?case by simp
next
  case (Cons e es)
  obtain k v where e: "e = (k, v)" by (cases e)
  show ?case
    unfolding e by (simp add: Cons.IH dom_update)
qed

lemma fromEntries_values:
  assumes "map_of (foldl (\<lambda>obj (k, v). AList.update k v obj) obj es) key = Some val"
  shows "(key, val) \<in> set es \<or> map_of obj key = Some val"
  using assms
proof (induction es arbitrary: obj)
  case Nil
  then show ?case by simp
next
  case (Cons e es)
  obtain k v where e: "e = (k, v)" by (cases e)
  from Cons.prems have "map_of (foldl (\<lambda>obj (k, v). AList.update k v obj) (AList.update k v obj) es) key = Some val"
    by (simp add: e)
  from Cons.IH[OF this] show ?case
    by (auto simp: e update_conv' split: if_splits)
qed

lemma paletteFromLightness_keys:
  "set (map fst (paletteFromLightness cfg)) = firstColor ` snd ` set (palettes cfg)"
  using fromEntries_keys[of "[]" "map (\<lambda>palette. (firstColor palette, palette)) (map snd (palettes cfg))"]
  by (simp add: paletteFromLightness_def objectFromEntries_def image_image)

lemma paletteFromLightness_value:
  assumes "map_of (paletteFromLightness cfg) key = Some palette"
  shows "palette \<in> snd ` set (palettes cfg)"
  using fromEntries_values[of "[]" "map (\<lambda>palette. (firstColor palette, palette)) (map snd (palettes cfg))" key palette]
    assms
  by (auto simp: paletteFromLightness_def objectFromEntries_def)

lemma paletteFromLightness_defined:
  assumes "key \<in> set (map fst (paletteFromLightness cfg))"
  shows "\<exists>palette. map_of (paletteFromLightness cfg) key = Some palette"
proof -
  from assms have "map_of (paletteFromLightness cfg) key \<noteq> None"
    by (simp add: map_of_eq_None_iff)
  then show ?thesis by blast
qed

lemma valid_palette:
  assumes "validConfig cfg" "palette \<in> snd ` set (palettes cfg)"
  shows "palette \<noteq> []" and "set palette \<subseteq> set (colors cfg)"
    and "firstColor palette \<in> set (colors cfg)"
proof -
  from assms(2) obtain name where m: "(name, palette) \<in> set (palettes cfg)" by auto
  then show ne: "palette \<noteq> []" using assms(1) by (auto simp: validConfig_def)
  show sub: "set palette \<subseteq> set (colors cfg)" using m by (rule palette_in_colors)
  show "firstColor palette \<in> set (colors cfg)" using firstColor_in[OF ne] sub by blast
qed

lemma valid_anchor:
  assumes "validConfig cfg" "name = ''light'' \<or> name = ''dark''"
  shows "\<exists>c. paletteAnchor cfg name = Inr c \<and> c \<in> set (colors cfg)"
proof -
  from assms obtain palette where p: "map_of (palettes cfg) name = Some palette"
    by (auto simp: validConfig_def)
  then have "palette \<in> snd ` set (palettes cfg)"
    by (force dest: map_of_SomeD)
  from valid_palette(3)[OF assms(1) this] p show ?thesis
    by (simp add: paletteAnchor_def)
qed

lemma valid_lightness_keys:
  assumes "validConfig cfg"
  shows "map fst (paletteFromLightness cfg) \<noteq> []"
    and "set (map fst (paletteFromLightness cfg)) \<subseteq> set (colors cfg)"
proof -
  from assms obtain palette where "map_of (palettes cfg) ''light'' = Some palette"
    by (auto simp: validConfig_def)
  then have "palettes cfg \<noteq> []" by auto
  then have "snd ` set (palettes cfg) \<noteq> {}" by simp
  then have "set (map fst (paletteFromLightness cfg)) \<noteq> {}"
    unfolding paletteFromLightness_keys by simp
  then show "map fst (paletteFromLightness cfg) \<noteq> []" by auto
  show "set (map fst (paletteFromLightness cfg)) \<subseteq> set (colors cfg)"
    unfolding paletteFromLightness_keys using valid_palette(3)[OF assms] by blast
qed

lemma mapE_Inr: "mapE (\<lambda>x. Inr (f x)) xs = Inr (map f xs)"
  by (induction xs) simp_all

lemma bestOf_valid:
  assumes wf: "wfState cfg s" and ne: "patterns \<noteq> []"
      and slots: "\<forall>p \<in> set patterns. cacheSlotExists cfg p"
      and rows: "tonesCoverPeriod cfg"
      and len: "length data \<le> tonePeriod cfg * tonePeriod cfg"
  shows "\<exists>p s'. bestOf cfg data patterns s = (Inr p, s') \<and> p \<in> set patterns \<and>
           fst (getBestPattern cfg data patterns s) = Inr (Some p) \<and>
           wfState cfg s' \<and> searchLog s' = searchLog s @ [(data, patterns)]"
proof -
  let ?f = "\<lambda>p. euclideanDistance data (patternTile cfg p)"
  from ne obtain p0 ps where pats: "patterns = p0 # ps" by (cases patterns) auto
  have dist: "\<forall>p \<in> set (p0 # ps). windowDistance cfg data p = Inr (Num (of_int (?f p)))"
  proof
    fix p assume "p \<in> set (p0 # ps)"
    then have "cacheSlotExists cfg p" using slots pats by auto
    from lookupTile_valid[OF this rows] len show "windowDistance cfg data p = Inr (Num (of_int (?f p)))"
      by (intro windowDistance_euclidean) simp_all
  qed
  define p where "p = keepFirstLowest ?f p0 ps"
  have sel: "selectBest cfg data patterns = Inr (Some p)"
    unfolding pats p_def by (rule selectBest_finite[OF dist])
  have mem: "p \<in> set patterns" unfolding pats p_def by (rule keepFirstLowest_in)
  obtain r s' where run: "getBestPattern cfg data patterns s = (r, s')"
    by (cases "getBestPattern cfg data patterns s")
  have r: "r = Inr (Some p)" using getBestPattern_result[OF wf, of data patterns] run sel by simp
  have w': "wfState cfg s'" using getBestPattern_wf[OF wf, of data patterns] run by simp
  have l': "searchLog s' = searchLog s @ [(data, patterns)]"
    using getBestPattern_log[OF wf, of data patterns] run by simp
  have "bestOf cfg data patterns s = (Inr p, s')"
    using run r by (simp add: bestOf_def monad_defs)
  then show ?thesis using mem run r w' l' by auto
qed

lemma bestOf_valid_sel:
  assumes wf: "wfState cfg s" and ne: "patterns \<noteq> []"
      and slots: "\<forall>p \<in> set patterns. cacheSlotExists cfg p"
      and rows: "tonesCoverPeriod cfg"
      and len: "length data \<le> tonePeriod cfg * tonePeriod cfg"
  shows "\<exists>p s'. bestOf cfg data patterns s = (Inr p, s') \<and> p \<in> set patterns \<and>
           selectBest cfg data patterns = Inr (Some p) \<and>
           wfState cfg s' \<and> searchLog s' = searchLog s @ [(data, patterns)]"
proof -
  from bestOf_valid[OF assms] obtain p s' where
    r: "bestOf cfg data patterns s = (Inr p, s')" "p \<in> set patterns"
       "fst (getBestPattern cfg data patterns s) = Inr (Some p)"
       "wfState cfg s'" "searchLog s' = searchLog s @ [(data, patterns)]"
    by blast
  have "selectBest cfg data patterns = Inr (Some p)"
    using getBestPattern_result[OF wf, of data patterns] r(3) by simp
  with r show ?thesis by blast
qed

lemma quantizeCell_trace:
  assumes valid: "validConfig cfg" and wf: "wfState cfg s" and oy: "oy < tonePeriod cfg"
      and ln: "length normalizedData \<le> tonePeriod cfg * tonePeriod cfg"
      and lw: "length windowData \<le> tonePeriod cfg * tonePeriod cfg"
  shows "\<exists>t backgroundLightness bg foregroundLightness fg light dark palette3 palette5 s'.
     quantizeCell cfg normalizedData windowData oy ox s = (Inr (t, bg, fg), s') \<and>
     wfState cfg s' \<and>
     paletteAnchor cfg ''light'' = Inr light \<and> paletteAnchor cfg ''dark'' = Inr dark \<and>
     map_of (paletteFromLightness cfg) backgroundLightness = Some palette3 \<and>
     map_of (paletteFromLightness cfg) foregroundLightness = Some palette5 \<and>
     searchLog s' = searchLog s @
       [(normalizedData, map (\<lambda>c. mkPattern c light dark oy ox) (map fst (tones cfg))),
        (windowData, map (\<lambda>c. mkPattern t c dark oy ox) (map fst (paletteFromLightness cfg))),
        (windowData, map (\<lambda>c. mkPattern t c dark oy ox) palette3),
        (windowData, map (\<lambda>c. mkPattern t bg c oy ox) (map fst (paletteFromLightness cfg))),
        (windowData, map (\<lambda>c. mkPattern t bg c oy ox) palette5)] \<and>
     selectBest cfg normalizedData (map (\<lambda>c. mkPattern c light dark oy ox) (map fst (tones cfg)))
       = Inr (Some (mkPattern t light dark oy ox)) \<and>
     selectBest cfg windowData (map (\<lambda>c. mkPattern t c dark oy ox) (map fst (paletteFromLightness cfg)))
       = Inr (Some (mkPattern t backgroundLightness dark oy ox)) \<and>
     selectBest cfg windowData (map (\<lambda>c. mkPattern t c dark oy ox) palette3)
       = Inr (Some (mkPattern t bg dark oy ox)) \<and>
     selectBest cfg windowData (map (\<lambda>c. mkPattern t bg c oy ox) (map fst (paletteFromLightness cfg)))
       = Inr (Some (mkPattern t bg foregroundLightness oy ox)) \<and>
     selectBest cfg windowData (map (\<lambda>c. mkPattern t bg c oy ox) palette5)
       = Inr (Some (mkPattern t bg fg oy ox))"
proof -
  have rows: "tonesCoverPeriod cfg" using valid by (simp add: validConfig_def)
  from valid_anchor[OF valid, of "''light''"] obtain light
    where L: "paletteAnchor cfg ''light'' = Inr light" "light \<in> set (colors cfg)" by auto
  from valid_anchor[OF valid, of "''dark''"] obtain dark
    where D: "paletteAnchor cfg ''dark'' = Inr dark" "dark \<in> set (colors cfg)" by auto
  define keys where "keys = map fst (paletteFromLightness cfg)"
  have keys_ne: "keys \<noteq> []" and keys_sub: "set keys \<subseteq> set (colors cfg)"
    unfolding keys_def by (rule valid_lightness_keys[OF valid])+
  \<comment> \<open>first search: the tone\<close>
  define ps1 where "ps1 = map (\<lambda>c. mkPattern c light dark oy ox) (map fst (tones cfg))"
  have tp: "tonePatterns cfg oy ox = Inr ps1"
    by (simp add: tonePatterns_def L D mapE_Inr ps1_def)
  have ne1: "ps1 \<noteq> []" using valid by (simp add: ps1_def validConfig_def)
  have sl1: "\<forall>p \<in> set ps1. cacheSlotExists cfg p"
    using L(2) D(2) oy by (auto simp: ps1_def cacheSlotExists_def)
  from bestOf_valid_sel[OF wf ne1 sl1 rows ln] obtain best1 s1 where
    b1: "bestOf cfg normalizedData ps1 s = (Inr best1, s1)" "best1 \<in> set ps1"
        "selectBest cfg normalizedData ps1 = Inr (Some best1)"
        "wfState cfg s1" "searchLog s1 = searchLog s @ [(normalizedData, ps1)]" by blast
  define t where "t = toneType best1"
  from b1(2) obtain c where c: "c \<in> set (map fst (tones cfg))" "best1 = mkPattern c light dark oy ox"
    unfolding ps1_def by (metis (no_types, lifting) imageE list.set_map)
  have t_in: "t \<in> set (map fst (tones cfg))" and e1: "best1 = mkPattern t light dark oy ox"
    using c by (simp_all add: t_def)
  \<comment> \<open>second search: the lightness of the background\<close>
  define ps2 where "ps2 = map (\<lambda>c. mkPattern t c dark oy ox) keys"
  have bp2: "backgroundPatterns cfg t keys oy ox = Inr ps2"
    by (simp add: backgroundPatterns_def D mapE_Inr ps2_def)
  have ne2: "ps2 \<noteq> []" using keys_ne by (simp add: ps2_def)
  have sl2: "\<forall>p \<in> set ps2. cacheSlotExists cfg p"
    using t_in D(2) oy keys_sub by (auto simp: ps2_def cacheSlotExists_def)
  from bestOf_valid_sel[OF b1(4) ne2 sl2 rows lw] obtain best2 s2 where
    b2: "bestOf cfg windowData ps2 s1 = (Inr best2, s2)" "best2 \<in> set ps2"
        "selectBest cfg windowData ps2 = Inr (Some best2)"
        "wfState cfg s2" "searchLog s2 = searchLog s1 @ [(windowData, ps2)]" by blast
  define bl where "bl = backgroundColor best2"
  have bl_in: "bl \<in> set keys" and e2: "best2 = mkPattern t bl dark oy ox"
    using b2(2) by (auto simp: ps2_def bl_def)
  from paletteFromLightness_defined[of bl cfg] bl_in obtain palette3
    where p3: "map_of (paletteFromLightness cfg) bl = Some palette3" by (auto simp: keys_def)
  have po3: "paletteOfLightness cfg bl = Inr palette3" by (simp add: paletteOfLightness_def p3)
  have v3: "palette3 \<noteq> []" "set palette3 \<subseteq> set (colors cfg)"
    using valid_palette[OF valid paletteFromLightness_value[OF p3]] by simp_all
  \<comment> \<open>third search: the background colour\<close>
  define ps3 where "ps3 = map (\<lambda>c. mkPattern t c dark oy ox) palette3"
  have bp3: "backgroundPatterns cfg t palette3 oy ox = Inr ps3"
    by (simp add: backgroundPatterns_def D mapE_Inr ps3_def)
  have ne3: "ps3 \<noteq> []" using v3(1) by (simp add: ps3_def)
  have sl3: "\<forall>p \<in> set ps3. cacheSlotExists cfg p"
    using t_in D(2) oy v3(2) by (auto simp: ps3_def cacheSlotExists_def)
  from bestOf_valid_sel[OF b2(4) ne3 sl3 rows lw] obtain best3 s3 where
    b3: "bestOf cfg windowData ps3 s2 = (Inr best3, s3)" "best3 \<in> set ps3"
        "selectBest cfg windowData ps3 = Inr (Some best3)"
        "wfState cfg s3" "searchLog s3 = searchLog s2 @ [(windowData, ps3)]" by blast
  define bg where "bg = backgroundColor best3"
  have bg_in: "bg \<in> set (colors cfg)" and e3: "best3 = mkPattern t bg dark oy ox"
    using b3(2) v3(2) by (auto simp: ps3_def bg_def)
  \<comment> \<open>fourth search: the lightness of the foreground\<close>
  define ps4 where "ps4 = map (\<lambda>c. mkPattern t bg c oy ox) keys"
  have fp4: "foregroundPatterns t bg keys oy ox = ps4"
    by (simp add: foregroundPatterns_def ps4_def)
  have ne4: "ps4 \<noteq> []" using keys_ne by (simp add: ps4_def)
  have sl4: "\<forall>p \<in> set ps4. cacheSlotExists cfg p"
    using t_in bg_in oy keys_sub by (auto simp: ps4_def cacheSlotExists_def)
  from bestOf_valid_sel[OF b3(4) ne4 sl4 rows lw] obtain best4 s4 where
    b4: "bestOf cfg windowData ps4 s3 = (Inr best4, s4)" "best4 \<in> set ps4"
        "selectBest cfg windowData ps4 = Inr (Some best4)"
        "wfState cfg s4" "searchLog s4 = searchLog s3 @ [(windowData, ps4)]" by blast
  define fl where "fl = foregroundColor best4"
  have fl_in: "fl \<in> set keys" and e4: "best4 = mkPattern t bg fl oy ox"
    using b4(2) by (auto simp: ps4_def fl_def)
  from paletteFromLightness_defined[of fl cfg] fl_in obtain palette5
    where p5: "map_of (paletteFromLightness cfg) fl = Some palette5" by (auto simp: keys_def)
  have po5: "paletteOfLightness cfg fl = Inr palette5" by (simp add: paletteOfLightness_def p5)
  have v5: "palette5 \<noteq> []" "set palette5 \<subseteq> set (colors cfg)"
    using valid_palette[OF valid paletteFromLightness_value[OF p5]] by simp_all
  \<comment> \<open>fifth search: the foreground colour\<close>
  define ps5 where "ps5 = map (\<lambda>c. mkPattern t bg c oy ox) palette5"
  have fp5: "foregroundPatterns t bg palette5 oy ox = ps5"
    by (simp add: foregroundPatterns_def ps5_def)
  have ne5: "ps5 \<noteq> []" using v5(1) by (simp add: ps5_def)
  have sl5: "\<forall>p \<in> set ps5. cacheSlotExists cfg p"
    using t_in bg_in oy v5(2) by (auto simp: ps5_def cacheSlotExists_def)
  from bestOf_valid_sel[OF b4(4) ne5 sl5 rows lw] obtain best5 s5 where
    b5: "bestOf cfg windowData ps5 s4 = (Inr best5, s5)" "best5 \<in> set ps5"
        "selectBest cfg windowData ps5 = Inr (Some best5)"
        "wfState cfg s5" "searchLog s5 = searchLog s4 @ [(windowData, ps5)]" by blast
  define fg where "fg = foregroundColor best5"
  have e5: "best5 = mkPattern t bg fg oy ox"
    using b5(2) by (auto simp: ps5_def fg_def)
  have run: "quantizeCell cfg normalizedData windowData oy ox s = (Inr (t, bg, fg), s5)"
    unfolding quantizeCell_def keys_def[symmetric]
    by (simp add: monad_defs tp b1(1) Let_def t_def[symmetric] bp2 b2(1) bl_def[symmetric] po3 bp3
          b3(1) bg_def[symmetric] fp4 b4(1) fl_def[symmetric] po5 fp5 b5(1) fg_def[symmetric])
  have log: "searchLog s5 = searchLog s @
       [(normalizedData, ps1), (windowData, ps2), (windowData, ps3), (windowData, ps4), (windowData, ps5)]"
    by (simp add: b1(5) b2(5) b3(5) b4(5) b5(5))
  show ?thesis
    apply (rule exI[of _ t], rule exI[of _ bl], rule exI[of _ bg], rule exI[of _ fl],
           rule exI[of _ fg], rule exI[of _ light], rule exI[of _ dark], rule exI[of _ palette3],
           rule exI[of _ palette5], rule exI[of _ s5])
    using run b5(4) L(1) D(1) p3 p5 log b1(3) b2(3) b3(3) b4(3) b5(3)
    unfolding e1 e2 e3 e4 e5 ps1_def ps2_def ps3_def ps4_def ps5_def keys_def
    by (intro conjI) assumption+
qed

lemma example_validConfig: "validConfig exampleConfig"
  by (simp add: validConfig_def tonesCoverPeriod_def exampleConfig_def)

text \<open>
  Claim C1, with the number of searches as the code has it. On a valid configuration and
  from a state the module can be in, the quantization of one cell returns a triple and
  calls \<open>getBestPattern\<close> five times, in this order: over the normalized window with the
  tones as candidates and both colours held at the anchors \<^verbatim>\<open>palettes.light[0]\<close> and
  \<^verbatim>\<open>palettes.dark[0]\<close>; then four times over the window as it was read, with the tone of
  the first search: for the lightness of the background (the keys of
  \<open>paletteFromLightness\<close>, the foreground at the dark anchor), for the background colour
  within the palette of that lightness, for the lightness of the foreground with the
  background found, and for the foreground colour within the palette of that lightness.
  Each later search is built from the pattern the search before it returned, and the
  triple is the tone, the background and the foreground of the last one.
\<close>

theorem quantizeCell_five_searches:
  assumes valid: "validConfig cfg" and wf: "wfState cfg s" and oy: "oy < tonePeriod cfg"
      and ln: "length normalizedData \<le> tonePeriod cfg * tonePeriod cfg"
      and lw: "length windowData \<le> tonePeriod cfg * tonePeriod cfg"
  shows "\<exists>t backgroundLightness bg foregroundLightness fg light dark palette3 palette5 s'.
     quantizeCell cfg normalizedData windowData oy ox s = (Inr (t, bg, fg), s') \<and>
     paletteAnchor cfg ''light'' = Inr light \<and> paletteAnchor cfg ''dark'' = Inr dark \<and>
     map_of (paletteFromLightness cfg) backgroundLightness = Some palette3 \<and>
     map_of (paletteFromLightness cfg) foregroundLightness = Some palette5 \<and>
     searchLog s' = searchLog s @
       [(normalizedData, map (\<lambda>c. mkPattern c light dark oy ox) (map fst (tones cfg))),
        (windowData, map (\<lambda>c. mkPattern t c dark oy ox) (map fst (paletteFromLightness cfg))),
        (windowData, map (\<lambda>c. mkPattern t c dark oy ox) palette3),
        (windowData, map (\<lambda>c. mkPattern t bg c oy ox) (map fst (paletteFromLightness cfg))),
        (windowData, map (\<lambda>c. mkPattern t bg c oy ox) palette5)] \<and>
     length (searchLog s') = length (searchLog s) + 5 \<and>
     fst (getBestPattern cfg normalizedData
            (map (\<lambda>c. mkPattern c light dark oy ox) (map fst (tones cfg))) s)
       = Inr (Some (mkPattern t light dark oy ox)) \<and>
     fst (getBestPattern cfg windowData
            (map (\<lambda>c. mkPattern t c dark oy ox) (map fst (paletteFromLightness cfg))) s)
       = Inr (Some (mkPattern t backgroundLightness dark oy ox)) \<and>
     fst (getBestPattern cfg windowData (map (\<lambda>c. mkPattern t c dark oy ox) palette3) s)
       = Inr (Some (mkPattern t bg dark oy ox)) \<and>
     fst (getBestPattern cfg windowData
            (map (\<lambda>c. mkPattern t bg c oy ox) (map fst (paletteFromLightness cfg))) s)
       = Inr (Some (mkPattern t bg foregroundLightness oy ox)) \<and>
     fst (getBestPattern cfg windowData (map (\<lambda>c. mkPattern t bg c oy ox) palette5) s)
       = Inr (Some (mkPattern t bg fg oy ox))"
proof -
  from quantizeCell_trace[OF assms, of ox]
  obtain t backgroundLightness bg foregroundLightness fg light dark palette3 palette5 s' where
    tr: "quantizeCell cfg normalizedData windowData oy ox s = (Inr (t, bg, fg), s')"
     "paletteAnchor cfg ''light'' = Inr light" "paletteAnchor cfg ''dark'' = Inr dark"
     "map_of (paletteFromLightness cfg) backgroundLightness = Some palette3"
     "map_of (paletteFromLightness cfg) foregroundLightness = Some palette5"
     "searchLog s' = searchLog s @
       [(normalizedData, map (\<lambda>c. mkPattern c light dark oy ox) (map fst (tones cfg))),
        (windowData, map (\<lambda>c. mkPattern t c dark oy ox) (map fst (paletteFromLightness cfg))),
        (windowData, map (\<lambda>c. mkPattern t c dark oy ox) palette3),
        (windowData, map (\<lambda>c. mkPattern t bg c oy ox) (map fst (paletteFromLightness cfg))),
        (windowData, map (\<lambda>c. mkPattern t bg c oy ox) palette5)]"
     and sel: "selectBest cfg normalizedData (map (\<lambda>c. mkPattern c light dark oy ox) (map fst (tones cfg)))
       = Inr (Some (mkPattern t light dark oy ox))"
     "selectBest cfg windowData (map (\<lambda>c. mkPattern t c dark oy ox) (map fst (paletteFromLightness cfg)))
       = Inr (Some (mkPattern t backgroundLightness dark oy ox))"
     "selectBest cfg windowData (map (\<lambda>c. mkPattern t c dark oy ox) palette3)
       = Inr (Some (mkPattern t bg dark oy ox))"
     "selectBest cfg windowData (map (\<lambda>c. mkPattern t bg c oy ox) (map fst (paletteFromLightness cfg)))
       = Inr (Some (mkPattern t bg foregroundLightness oy ox))"
     "selectBest cfg windowData (map (\<lambda>c. mkPattern t bg c oy ox) palette5)
       = Inr (Some (mkPattern t bg fg oy ox))"
    by blast
  have len: "length (searchLog s') = length (searchLog s) + 5" by (simp add: tr(6))
  note g = getBestPattern_result[OF wf]
  show ?thesis
    apply (rule exI[of _ t], rule exI[of _ backgroundLightness], rule exI[of _ bg],
           rule exI[of _ foregroundLightness], rule exI[of _ fg], rule exI[of _ light],
           rule exI[of _ dark], rule exI[of _ palette3], rule exI[of _ palette5], rule exI[of _ s'])
    unfolding g
    using tr len sel by (intro conjI) assumption+
qed

theorem quantizeCell_five_searches_witness:
  "validConfig exampleConfig \<and> wfState exampleConfig (freshState exampleConfig) \<and>
   1 < tonePeriod exampleConfig \<and>
   length (normalizeWindow exampleWindow) \<le> tonePeriod exampleConfig * tonePeriod exampleConfig \<and>
   length exampleWindow \<le> tonePeriod exampleConfig * tonePeriod exampleConfig \<and>
   (\<exists>t bg fg s'.
      quantizeCell exampleConfig (normalizeWindow exampleWindow) exampleWindow 1 1
        (freshState exampleConfig) = (Inr (t, bg, fg), s') \<and>
      length (searchLog s') = length (searchLog (freshState exampleConfig)) + 5)"
proof -
  have h: "1 < tonePeriod exampleConfig"
    "length (normalizeWindow exampleWindow) \<le> tonePeriod exampleConfig * tonePeriod exampleConfig"
    "length exampleWindow \<le> tonePeriod exampleConfig * tonePeriod exampleConfig"
    by (simp_all add: exampleConfig_def exampleWindow_def length_normalizeWindow)
  from quantizeCell_five_searches[OF example_validConfig wfState_freshState h, of 1]
  have "\<exists>t bg fg s'.
      quantizeCell exampleConfig (normalizeWindow exampleWindow) exampleWindow 1 1
        (freshState exampleConfig) = (Inr (t, bg, fg), s') \<and>
      length (searchLog s') = length (searchLog (freshState exampleConfig)) + 5"
    by blast
  then show ?thesis
    using example_validConfig wfState_freshState[of exampleConfig] h by blast
qed

theorem quantizeCell_four_searches_counterexample:
  "length (searchLog (snd (quantizeCell exampleConfig (normalizeWindow exampleWindow)
                             exampleWindow 1 1 (freshState exampleConfig)))) = 5 \<and>
   length (searchLog (snd (quantizeCell exampleConfig (normalizeWindow exampleWindow)
                             exampleWindow 1 1 (freshState exampleConfig)))) \<noteq> 4"
proof -
  have h: "1 < tonePeriod exampleConfig"
    "length (normalizeWindow exampleWindow) \<le> tonePeriod exampleConfig * tonePeriod exampleConfig"
    "length exampleWindow \<le> tonePeriod exampleConfig * tonePeriod exampleConfig"
    by (simp_all add: exampleConfig_def exampleWindow_def length_normalizeWindow)
  from quantizeCell_trace[OF example_validConfig wfState_freshState h, of 1]
  obtain t bg fg s' e1 e2 e3 e4 e5 where
    run: "quantizeCell exampleConfig (normalizeWindow exampleWindow) exampleWindow 1 1
            (freshState exampleConfig) = (Inr (t, bg, fg), s')"
    and log: "searchLog s' = searchLog (freshState exampleConfig) @ [e1, e2, e3, e4, e5]"
    by blast
  have "length (searchLog s') = 5" using log by (simp add: freshState_def)
  then show ?thesis using run by simp
qed

subsection \<open>Windows of one lightness\<close>

text \<open>Rounding to a double keeps the sign of a number, and keeps zero, so that the
  sign of the numerator of the rescaling is the sign of the byte minus the lightness.\<close>

lemma floor_rat_numeral: "\<lfloor>numeral a / numeral b :: rat\<rfloor> = numeral a div numeral b"
  using floor_divide_of_int_eq[of "numeral a" "numeral b", where 'a = rat] by simp

lemmas double_eval = roundDouble_def roundPositive.simps roundHalfEven_def Let_def floor_rat_numeral

lemma roundPositive_nonpos: "q \<le> 0 \<Longrightarrow> roundPositive q = 0"
  by (subst roundPositive.simps) simp

lemma floor_le_roundHalfEven: "\<lfloor>q\<rfloor> \<le> roundHalfEven q"
  by (simp add: roundHalfEven_def Let_def)

lemma roundPositive_pos: "0 < q \<Longrightarrow> 0 < roundPositive q"
proof (induction q rule: roundPositive.induct)
  case (1 q)
  note pos = \<open>0 < q\<close>
  show ?case
  proof (cases "2 ^ 53 \<le> q")
    case True
    have "0 < roundPositive (q / 2)" using 1(1) True pos by simp
    then show ?thesis using True pos by (subst roundPositive.simps) simp
  next
    case False
    show ?thesis
    proof (cases "q < 2 ^ 52")
      case True
      have "0 < roundPositive (2 * q)" using 1(2) True False pos by simp
      then show ?thesis using True False pos by (subst roundPositive.simps) simp
    next
      case ge: False
      then have "2 ^ 52 \<le> \<lfloor>q\<rfloor>" by (simp add: le_floor_iff)
      moreover have "(0 :: int) < 2 ^ 52" by simp
      ultimately have "0 < roundHalfEven q" using floor_le_roundHalfEven[of q] by linarith
      then show ?thesis using ge False pos by (subst roundPositive.simps) simp
    qed
  qed
qed

lemma roundDouble_0 [simp]: "roundDouble 0 = 0"
  by (simp add: roundDouble_def roundPositive_nonpos)

lemma roundDouble_pos: "0 < q \<Longrightarrow> 0 < roundDouble q"
  by (simp add: roundDouble_def roundPositive_pos)

lemma roundDouble_neg: "q < 0 \<Longrightarrow> roundDouble q < 0"
  using roundPositive_pos[of "- q"] by (simp add: roundDouble_def)

lemma jsSub_Num [simp]: "jsSub (Num a) (Num b) = Num (a - b)"
  by (simp add: jsSub_def)

lemma rescaled_flat: "rescaled (Num m) (Num m) (toUint8Clamp (Num m)) = flatQuotient m"
proof -
  define b :: rat where "b = of_nat (toUint8Clamp (Num m))"
  define a where "a = roundDouble (roundDouble (b - m) * 255)"
  have r: "rescaled (Num m) (Num m) (toUint8Clamp (Num m)) = jsRound (signedInf (jsSign (Num a)))"
    by (simp add: rescaled_def byteNum_def a_def b_def del: toUint8Clamp.simps(4))
  consider "m < b" | "m = b" | "b < m" by linarith
  then show ?thesis
  proof cases
    case 1
    then have "0 < roundDouble (b - m) * 255" using roundDouble_pos[of "b - m"] by simp
    then have "0 < a" unfolding a_def by (rule roundDouble_pos)
    then show ?thesis using 1 unfolding r flatQuotient_def b_def[symmetric] by (simp add: signedInf_def)
  next
    case 2
    then have "a = 0" by (simp add: a_def)
    then show ?thesis using 2 unfolding r flatQuotient_def b_def[symmetric] by (simp add: signedInf_def)
  next
    case 3
    then have "roundDouble (b - m) * 255 < 0" using roundDouble_neg[of "b - m"] by simp
    then have "a < 0" unfolding a_def by (rule roundDouble_neg)
    then show ?thesis using 3 unfolding r flatQuotient_def b_def[symmetric] by (simp add: signedInf_def)
  qed
qed

lemma rescale_flat: "rescale (Num m) (Num m) (toUint8Clamp (Num m)) = flatValue m"
  unfolding rescale_def rescaled_flat flatQuotient_def flatValue_def by simp

lemma flatQuotient_not_finite: "isFinite (flatQuotient m) = False"
  by (simp add: flatQuotient_def)

lemma mathMax_snoc: "mathMax (xs @ [x]) = jsMax (mathMax xs) x"
  by (simp add: mathMax_def)

lemma mathMin_snoc: "mathMin (xs @ [x]) = jsMin (mathMin xs) x"
  by (simp add: mathMin_def)

lemma mathMax_Num:
  "mathMax (map Num qs) = (if qs = [] then NInf else Num (Max (set qs)))"
proof (induction qs rule: rev_induct)
  case Nil
  show ?case by (simp add: mathMax_def)
next
  case (snoc q qs)
  show ?case
  proof (cases "qs = []")
    case True
    then show ?thesis by (simp add: mathMax_def)
  next
    case False
    then have "mathMax (map Num (qs @ [q])) = jsMax (Num (Max (set qs))) (Num q)"
      using snoc by (simp add: mathMax_snoc)
    also have "\<dots> = Num (max (Max (set qs)) q)" by (simp add: max_def)
    also have "max (Max (set qs)) q = Max (set (qs @ [q]))"
      using False by (simp add: max.commute)
    finally show ?thesis by simp
  qed
qed

lemma mathMin_Num:
  "mathMin (map Num qs) = (if qs = [] then PInf else Num (Min (set qs)))"
proof (induction qs rule: rev_induct)
  case Nil
  show ?case by (simp add: mathMin_def)
next
  case (snoc q qs)
  show ?case
  proof (cases "qs = []")
    case True
    then show ?thesis by (simp add: mathMin_def)
  next
    case False
    then have "mathMin (map Num (qs @ [q])) = jsMin (Num (Min (set qs))) (Num q)"
      using snoc by (simp add: mathMin_snoc)
    also have "\<dots> = Num (min (Min (set qs)) q)" by (simp add: min_def)
    also have "min (Min (set qs)) q = Min (set (qs @ [q]))"
      using False by (simp add: min.commute)
    finally show ?thesis by simp
  qed
qed

lemma flat_lightnesses:
  assumes "mathMax (map Num qs) = mathMin (map Num qs)"
  shows "qs \<noteq> []" and "\<forall>q \<in> set qs. q = Min (set qs)"
    and "mathMin (map Num qs) = Num (Min (set qs))" and "mathMax (map Num qs) = Num (Min (set qs))"
proof -
  show ne: "qs \<noteq> []" using assms by (auto simp: mathMax_Num mathMin_Num split: if_splits)
  then have eq: "Max (set qs) = Min (set qs)" using assms by (simp add: mathMax_Num mathMin_Num)
  show "\<forall>q \<in> set qs. q = Min (set qs)"
  proof
    fix q assume q: "q \<in> set qs"
    then have "Min (set qs) \<le> q" "q \<le> Max (set qs)" by simp_all
    then show "q = Min (set qs)" using eq by simp
  qed
  show "mathMin (map Num qs) = Num (Min (set qs))" using ne by (simp add: mathMin_Num)
  show "mathMax (map Num qs) = Num (Min (set qs))" using ne eq by (simp add: mathMax_Num)
qed

lemma normalizeWindow_nth:
  assumes "i < length w"
  shows "normalizeWindow w ! i =
           (if alpha (w ! i) \<noteq> 255 then w ! i
            else (let v = rescale (mathMin (snd (grayscalePass w))) (mathMax (snd (grayscalePass w)))
                            (toUint8Clamp (lightnessOf (w ! i)))
                  in RGBA v v v 255))"
  using assms
  by (simp add: normalizeWindow_eq grayscalePass_snd rescalePass_def grayscalePass_fst
        grayPixel_def Let_def)

lemma normalizeWindow_flat:
  assumes flat: "mathMax (snd (grayscalePass w)) = mathMin (snd (grayscalePass w))"
  shows "\<exists>m. mathMin (snd (grayscalePass w)) = Num m \<and>
             mathMax (snd (grayscalePass w)) = Num m \<and>
             (\<forall>i < length w. alpha (w ! i) = 255 \<longrightarrow> lightnessOf (w ! i) = Num m) \<and>
             normalizeWindow w = flatWindow (flatValue m) w"
proof -
  define qs where "qs = map (\<lambda>px. luma (red px) (green px) (blue px)) (filter isOpaque w)"
  have ls: "snd (grayscalePass w) = map Num qs"
    by (simp add: grayscalePass_snd qs_def lightnessOf_def comp_def)
  define m where "m = Min (set qs)"
  note fl = flat_lightnesses[OF flat[unfolded ls], folded m_def]
  have l: "lightnessOf (w ! i) = Num m" if i: "i < length w" and op: "alpha (w ! i) = 255" for i
  proof -
    have "w ! i \<in> set (filter isOpaque w)" using i op by (simp add: isOpaque_def)
    then have "luma (red (w ! i)) (green (w ! i)) (blue (w ! i)) \<in> set qs"
      unfolding qs_def by (metis (no_types, lifting) image_eqI list.set_map)
    then show ?thesis using fl(2) by (simp add: lightnessOf_def)
  qed
  have px: "normalizeWindow w ! i = flatWindow (flatValue m) w ! i" if i: "i < length w" for i
  proof (cases "alpha (w ! i) = 255")
    case True
    then show ?thesis
      using l[OF i True] i
      by (simp add: normalizeWindow_nth[OF i] ls fl(3,4) rescale_flat Let_def flatWindow_def
            del: toUint8Clamp.simps(4))
  next
    case False
    then show ?thesis using i by (simp add: normalizeWindow_nth[OF i] flatWindow_def)
  qed
  have "normalizeWindow w = flatWindow (flatValue m) w"
    by (rule nth_equalityI) (simp_all add: length_normalizeWindow flatWindow_def px)
  then show ?thesis
    using fl(3,4) l unfolding ls by blast
qed

text \<open>Two uniform windows, gray 128 and gray 129: the luma of the first is one unit in
  the last place below 128, that of the second is 129. Then the five searches of the
  cell on the first window.\<close>

lemma luma_128: "luma 128 128 128 = 128 - 1 / 2 ^ 46"
  unfolding luma_def by (simp add: double_eval)

lemma luma_129: "luma 129 129 129 = 129"
  unfolding luma_def by (simp add: double_eval)

lemma example_lightnesses:
  "mathMin (snd (grayscalePass exampleFlatWindow)) = Num (128 - 1 / 2 ^ 46)"
  "mathMax (snd (grayscalePass exampleFlatWindow)) = Num (128 - 1 / 2 ^ 46)"
  "mathMin (snd (grayscalePass exampleFlatWindow129)) = Num 129"
  "mathMax (snd (grayscalePass exampleFlatWindow129)) = Num 129"
  unfolding grayscalePass_snd
  by (simp_all add: exampleFlatWindow_def exampleFlatWindow129_def isOpaque_def lightnessOf_def
        luma_128 luma_129 mathMax_def mathMin_def)

lemma example_flat:
  "mathMax (snd (grayscalePass exampleFlatWindow)) = mathMin (snd (grayscalePass exampleFlatWindow))"
  "mathMax (snd (grayscalePass exampleFlatWindow129)) = mathMin (snd (grayscalePass exampleFlatWindow129))"
  by (simp_all only: example_lightnesses)

lemma example_bytes:
  "toUint8Clamp (Num (128 - 1 / 2 ^ 46)) = 128" "toUint8Clamp (Num 129) = 129"
  by (simp_all add: roundHalfEven_def Let_def floor_rat_numeral)

lemma example_flat_values:
  "flatQuotient (128 - 1 / 2 ^ 46) = PInf" "flatValue (128 - 1 / 2 ^ 46) = 255"
  "flatQuotient 129 = NaN" "flatValue 129 = 0"
  unfolding flatQuotient_def flatValue_def example_bytes by simp_all

lemmas example_eval = selectBest_def bestStep_def windowDistance_def distanceStep_def lookupTile_def
  cacheSlotExists_def rowsExist_def renderedTile_def tilePixel_def tileColor_def bitmapAt_def
  exampleConfig_def exampleRgb_def mkPattern_def colors_def tonePeriodRange_def opaquePixel_def
  pixelDistance_def channelDistance_def nthOpt_def byteNum_def enumerate_eq_zip upt_rec

lemma example_anchors:
  "paletteAnchor exampleConfig ''light'' = Inr ''white''"
  "paletteAnchor exampleConfig ''dark'' = Inr ''black''"
  by (simp_all add: paletteAnchor_def exampleConfig_def firstColor_def)

lemma example_paletteFromLightness:
  "paletteFromLightness exampleConfig =
     [(''white'', [''white'', ''silver'']), (''black'', [''black'', ''gray''])]"
  by (simp add: paletteFromLightness_def objectFromEntries_def exampleConfig_def firstColor_def)

lemma example_normalized:
  "flatWindow 255 exampleFlatWindow =
     [RGBA 255 255 255 255, RGBA 255 255 255 255, RGBA 255 255 255 255, RGBA 255 255 255 255]"
  "flatWindow 0 exampleFlatWindow129 =
     [RGBA 0 0 0 255, RGBA 0 0 0 255, RGBA 0 0 0 255, RGBA 0 0 0 255]"
  by (simp_all add: flatWindow_def exampleFlatWindow_def exampleFlatWindow129_def)

lemma example_search_tone:
  "selectBest exampleConfig (flatWindow 255 exampleFlatWindow)
     (map (\<lambda>c. mkPattern c ''white'' ''black'' 1 1) (map fst (tones exampleConfig)))
   = Inr (Some (mkPattern ''dot'' ''white'' ''black'' 1 1))"
  unfolding example_normalized by (simp add: example_eval)

lemma example_search_background:
  "selectBest exampleConfig exampleFlatWindow
     (map (\<lambda>c. mkPattern ''dot'' c ''black'' 1 1) [''white'', ''black''])
   = Inr (Some (mkPattern ''dot'' ''white'' ''black'' 1 1))"
  "selectBest exampleConfig exampleFlatWindow
     (map (\<lambda>c. mkPattern ''dot'' c ''black'' 1 1) [''white'', ''silver''])
   = Inr (Some (mkPattern ''dot'' ''silver'' ''black'' 1 1))"
  by (simp_all add: example_eval exampleFlatWindow_def)

lemma example_search_foreground:
  "selectBest exampleConfig exampleFlatWindow
     (map (\<lambda>c. mkPattern ''dot'' ''silver'' c 1 1) [''white'', ''black''])
   = Inr (Some (mkPattern ''dot'' ''silver'' ''white'' 1 1))"
  "selectBest exampleConfig exampleFlatWindow
     (map (\<lambda>c. mkPattern ''dot'' ''silver'' c 1 1) [''white'', ''silver''])
   = Inr (Some (mkPattern ''dot'' ''silver'' ''silver'' 1 1))"
  by (simp_all add: example_eval exampleFlatWindow_def)

lemma mkPattern_inject:
  "mkPattern t bg fg oy ox = mkPattern t' bg' fg' oy' ox' \<longleftrightarrow>
     t = t' \<and> bg = bg' \<and> fg = fg' \<and> oy = oy' \<and> ox = ox'"
  by (auto simp: mkPattern_def)

text \<open>
  Claim C5, as the code has it. The rescaling has no test of the divisor. On a window
  whose opaque pixels all have one lightness \<open>m\<close> (the maximum and the minimum of the
  collected lightnesses are equal, which needs an opaque pixel) it divides by zero: the
  quotient is \<open>Infinity\<close> when the byte that the first loop stored is above \<open>m\<close>, NaN
  when it is \<open>m\<close> and \<open>-Infinity\<close> when it is below, never a finite number. Only the
  store into the clamped array makes a byte of it, 255 in the first case and 0 in the
  two others, so that the normalized window is the window with every opaque pixel
  replaced by \<open>(v, v, v, 255)\<close> for that byte \<open>v\<close>. No NaN and no infinity reaches
  \<open>getBestPattern\<close>: on a valid configuration the distance of every candidate that has
  a cache slot is the Euclidean distance to that window, and the quantization of the
  cell returns the triple that the five searches select on it, the same one from every
  state the module can be in.
\<close>

theorem normalizeWindow_flat_window:
  assumes flat: "mathMax (snd (grayscalePass w)) = mathMin (snd (grayscalePass w))"
      and valid: "validConfig cfg"
      and wf1: "wfState cfg s1" and wf2: "wfState cfg s2"
      and oy: "oy < tonePeriod cfg"
      and len: "length w \<le> tonePeriod cfg * tonePeriod cfg"
  shows "\<exists>m t backgroundLightness bg foregroundLightness fg light dark palette3 palette5.
     mathMin (snd (grayscalePass w)) = Num m \<and>
     mathMax (snd (grayscalePass w)) = Num m \<and>
     (\<forall>i < length w. alpha (w ! i) = 255 \<longrightarrow> lightnessOf (w ! i) = Num m) \<and>
     rescaled (Num m) (Num m) (toUint8Clamp (Num m)) =
       (if m < of_nat (toUint8Clamp (Num m)) then PInf
        else if m = of_nat (toUint8Clamp (Num m)) then NaN
        else NInf) \<and>
     isFinite (rescaled (Num m) (Num m) (toUint8Clamp (Num m))) = False \<and>
     rescale (Num m) (Num m) (toUint8Clamp (Num m)) =
       (if m < of_nat (toUint8Clamp (Num m)) then 255 else 0) \<and>
     normalizeWindow w = flatWindow (if m < of_nat (toUint8Clamp (Num m)) then 255 else 0) w \<and>
     (\<forall>p. cacheSlotExists cfg p \<longrightarrow>
        fst (patternDistance cfg (normalizeWindow w) p s1) =
          Inr (Num (of_int (euclideanDistance (normalizeWindow w) (patternTile cfg p))))) \<and>
     fst (quantizeCell cfg (normalizeWindow w) w oy ox s1) = Inr (t, bg, fg) \<and>
     fst (quantizeCell cfg (normalizeWindow w) w oy ox s2) = Inr (t, bg, fg) \<and>
     paletteAnchor cfg ''light'' = Inr light \<and> paletteAnchor cfg ''dark'' = Inr dark \<and>
     map_of (paletteFromLightness cfg) backgroundLightness = Some palette3 \<and>
     map_of (paletteFromLightness cfg) foregroundLightness = Some palette5 \<and>
     fst (getBestPattern cfg (normalizeWindow w)
            (map (\<lambda>c. mkPattern c light dark oy ox) (map fst (tones cfg))) s1)
       = Inr (Some (mkPattern t light dark oy ox)) \<and>
     fst (getBestPattern cfg w
            (map (\<lambda>c. mkPattern t c dark oy ox) (map fst (paletteFromLightness cfg))) s1)
       = Inr (Some (mkPattern t backgroundLightness dark oy ox)) \<and>
     fst (getBestPattern cfg w (map (\<lambda>c. mkPattern t c dark oy ox) palette3) s1)
       = Inr (Some (mkPattern t bg dark oy ox)) \<and>
     fst (getBestPattern cfg w
            (map (\<lambda>c. mkPattern t bg c oy ox) (map fst (paletteFromLightness cfg))) s1)
       = Inr (Some (mkPattern t bg foregroundLightness oy ox)) \<and>
     fst (getBestPattern cfg w (map (\<lambda>c. mkPattern t bg c oy ox) palette5) s1)
       = Inr (Some (mkPattern t bg fg oy ox))"
proof -
  from normalizeWindow_flat[OF flat] obtain m where
    m: "mathMin (snd (grayscalePass w)) = Num m" "mathMax (snd (grayscalePass w)) = Num m"
       "\<forall>i < length w. alpha (w ! i) = 255 \<longrightarrow> lightnessOf (w ! i) = Num m"
       "normalizeWindow w = flatWindow (flatValue m) w"
    by blast
  have rows: "tonesCoverPeriod cfg" using valid by (simp add: validConfig_def)
  have ln: "length (normalizeWindow w) \<le> tonePeriod cfg * tonePeriod cfg"
    using len by (simp add: length_normalizeWindow)
  have q: "rescaled (Num m) (Num m) (toUint8Clamp (Num m)) =
       (if m < of_nat (toUint8Clamp (Num m)) then PInf
        else if m = of_nat (toUint8Clamp (Num m)) then NaN
        else NInf)"
    unfolding rescaled_flat flatQuotient_def ..
  have nonfinite: "isFinite (rescaled (Num m) (Num m) (toUint8Clamp (Num m))) = False"
    unfolding rescaled_flat by (rule flatQuotient_not_finite)
  have v: "rescale (Num m) (Num m) (toUint8Clamp (Num m)) =
       (if m < of_nat (toUint8Clamp (Num m)) then 255 else 0)"
    unfolding rescale_flat flatValue_def ..
  have nw: "normalizeWindow w = flatWindow (if m < of_nat (toUint8Clamp (Num m)) then 255 else 0) w"
    using m(4) unfolding flatValue_def .
  have dist: "fst (patternDistance cfg (normalizeWindow w) p s1) =
          Inr (Num (of_int (euclideanDistance (normalizeWindow w) (patternTile cfg p))))"
    if slot: "cacheSlotExists cfg p" for p
    using patternDistance_pure[OF wf1, of "normalizeWindow w" p]
      windowDistance_euclidean[OF lookupTile_valid(1)[OF slot rows], of "normalizeWindow w"]
      lookupTile_valid(2)[OF slot rows] ln
    by simp
  from quantizeCell_trace[OF valid wf1 oy ln len, of ox]
  obtain t backgroundLightness bg foregroundLightness fg light dark palette3 palette5 s' where
    tr: "quantizeCell cfg (normalizeWindow w) w oy ox s1 = (Inr (t, bg, fg), s')"
     "paletteAnchor cfg ''light'' = Inr light" "paletteAnchor cfg ''dark'' = Inr dark"
     "map_of (paletteFromLightness cfg) backgroundLightness = Some palette3"
     "map_of (paletteFromLightness cfg) foregroundLightness = Some palette5"
     and sel: "selectBest cfg (normalizeWindow w) (map (\<lambda>c. mkPattern c light dark oy ox) (map fst (tones cfg)))
       = Inr (Some (mkPattern t light dark oy ox))"
     "selectBest cfg w (map (\<lambda>c. mkPattern t c dark oy ox) (map fst (paletteFromLightness cfg)))
       = Inr (Some (mkPattern t backgroundLightness dark oy ox))"
     "selectBest cfg w (map (\<lambda>c. mkPattern t c dark oy ox) palette3)
       = Inr (Some (mkPattern t bg dark oy ox))"
     "selectBest cfg w (map (\<lambda>c. mkPattern t bg c oy ox) (map fst (paletteFromLightness cfg)))
       = Inr (Some (mkPattern t bg foregroundLightness oy ox))"
     "selectBest cfg w (map (\<lambda>c. mkPattern t bg c oy ox) palette5)
       = Inr (Some (mkPattern t bg fg oy ox))"
    by blast
  have q1: "fst (quantizeCell cfg (normalizeWindow w) w oy ox s1) = Inr (t, bg, fg)"
    using tr(1) by simp
  have q2: "fst (quantizeCell cfg (normalizeWindow w) w oy ox s2) = Inr (t, bg, fg)"
    using stateIndependentD(1)[OF stateIndependent_quantizeCell wf1 wf2,
            of "normalizeWindow w" w oy ox] q1 by simp
  note g = getBestPattern_result[OF wf1]
  show ?thesis
    apply (rule exI[of _ m], rule exI[of _ t], rule exI[of _ backgroundLightness], rule exI[of _ bg],
           rule exI[of _ foregroundLightness], rule exI[of _ fg], rule exI[of _ light],
           rule exI[of _ dark], rule exI[of _ palette3], rule exI[of _ palette5])
    unfolding g
    using m(1,2,3) q nonfinite v nw dist q1 q2 tr(2-5) sel
    by (intro conjI allI impI) (assumption | blast)+
qed

theorem normalizeWindow_flat_window_witness:
  "mathMax (snd (grayscalePass exampleFlatWindow)) = mathMin (snd (grayscalePass exampleFlatWindow)) \<and>
   validConfig exampleConfig \<and>
   wfState exampleConfig (freshState exampleConfig) \<and>
   wfState exampleConfig (renderMany exampleConfig examplePatterns (freshState exampleConfig)) \<and>
   1 < tonePeriod exampleConfig \<and>
   length exampleFlatWindow \<le> tonePeriod exampleConfig * tonePeriod exampleConfig \<and>
   mathMin (snd (grayscalePass exampleFlatWindow)) = Num (128 - 1 / 2 ^ 46) \<and>
   toUint8Clamp (Num (128 - 1 / 2 ^ 46)) = 128 \<and>
   rescaled (Num (128 - 1 / 2 ^ 46)) (Num (128 - 1 / 2 ^ 46)) 128 = PInf \<and>
   rescale (Num (128 - 1 / 2 ^ 46)) (Num (128 - 1 / 2 ^ 46)) 128 = 255 \<and>
   normalizeWindow exampleFlatWindow =
     [RGBA 255 255 255 255, RGBA 255 255 255 255, RGBA 255 255 255 255, RGBA 255 255 255 255] \<and>
   fst (quantizeCell exampleConfig (normalizeWindow exampleFlatWindow) exampleFlatWindow 1 1
          (freshState exampleConfig)) = Inr (''dot'', ''silver'', ''silver'') \<and>
   fst (quantizeCell exampleConfig (normalizeWindow exampleFlatWindow) exampleFlatWindow 1 1
          (renderMany exampleConfig examplePatterns (freshState exampleConfig)))
     = Inr (''dot'', ''silver'', ''silver'')"
proof -
  let ?w = exampleFlatWindow
  let ?s = "freshState exampleConfig"
  have w2: "wfState exampleConfig (renderMany exampleConfig examplePatterns ?s)"
    by (rule renderMany_wf[OF wfState_freshState])
  have h: "1 < tonePeriod exampleConfig"
    "length ?w \<le> tonePeriod exampleConfig * tonePeriod exampleConfig"
    by (simp_all add: exampleConfig_def exampleFlatWindow_def)
  note g = getBestPattern_result[OF wfState_freshState, of exampleConfig]
  from normalizeWindow_flat_window[OF example_flat(1) example_validConfig wfState_freshState w2 h, of 1]
  obtain m t backgroundLightness bg foregroundLightness fg light dark palette3 palette5 where
    m: "mathMin (snd (grayscalePass ?w)) = Num m"
    and q: "rescaled (Num m) (Num m) (toUint8Clamp (Num m)) =
       (if m < of_nat (toUint8Clamp (Num m)) then PInf
        else if m = of_nat (toUint8Clamp (Num m)) then NaN
        else NInf)"
    and v: "rescale (Num m) (Num m) (toUint8Clamp (Num m)) =
       (if m < of_nat (toUint8Clamp (Num m)) then 255 else 0)"
    and nw: "normalizeWindow ?w = flatWindow (if m < of_nat (toUint8Clamp (Num m)) then 255 else 0) ?w"
    and q1: "fst (quantizeCell exampleConfig (normalizeWindow ?w) ?w 1 1 ?s) = Inr (t, bg, fg)"
    and q2: "fst (quantizeCell exampleConfig (normalizeWindow ?w) ?w 1 1
                    (renderMany exampleConfig examplePatterns ?s)) = Inr (t, bg, fg)"
    and a: "paletteAnchor exampleConfig ''light'' = Inr light"
           "paletteAnchor exampleConfig ''dark'' = Inr dark"
    and p: "map_of (paletteFromLightness exampleConfig) backgroundLightness = Some palette3"
           "map_of (paletteFromLightness exampleConfig) foregroundLightness = Some palette5"
    and s1: "selectBest exampleConfig (normalizeWindow ?w)
               (map (\<lambda>c. mkPattern c light dark 1 1) (map fst (tones exampleConfig)))
             = Inr (Some (mkPattern t light dark 1 1))"
    and s2: "selectBest exampleConfig ?w
               (map (\<lambda>c. mkPattern t c dark 1 1) (map fst (paletteFromLightness exampleConfig)))
             = Inr (Some (mkPattern t backgroundLightness dark 1 1))"
    and s3: "selectBest exampleConfig ?w (map (\<lambda>c. mkPattern t c dark 1 1) palette3)
             = Inr (Some (mkPattern t bg dark 1 1))"
    and s4: "selectBest exampleConfig ?w
               (map (\<lambda>c. mkPattern t bg c 1 1) (map fst (paletteFromLightness exampleConfig)))
             = Inr (Some (mkPattern t bg foregroundLightness 1 1))"
    and s5: "selectBest exampleConfig ?w (map (\<lambda>c. mkPattern t bg c 1 1) palette5)
             = Inr (Some (mkPattern t bg fg 1 1))"
    unfolding g by blast
  have m_eq: "m = 128 - 1 / 2 ^ 46" using m unfolding example_lightnesses by simp
  have lt: "m < of_nat (toUint8Clamp (Num m))" unfolding m_eq example_bytes by simp
  have light: "light = ''white''" and dark: "dark = ''black''"
    using a unfolding example_anchors by simp_all
  have nw': "normalizeWindow ?w = flatWindow 255 ?w" using nw lt by simp
  have t: "t = ''dot''"
    using s1 unfolding nw' light dark example_search_tone by (simp add: mkPattern_inject)
  have keys: "map fst (paletteFromLightness exampleConfig) = [''white'', ''black'']"
    by (simp add: example_paletteFromLightness)
  have bl: "backgroundLightness = ''white''"
    using s2 unfolding t dark keys example_search_background by (simp add: mkPattern_inject)
  have p3: "palette3 = [''white'', ''silver'']"
    using p(1) unfolding bl example_paletteFromLightness by simp
  have bg: "bg = ''silver''"
    using s3 unfolding t dark p3 example_search_background by (simp add: mkPattern_inject)
  have fl: "foregroundLightness = ''white''"
    using s4 unfolding t bg keys example_search_foreground by (simp add: mkPattern_inject)
  have p5: "palette5 = [''white'', ''silver'']"
    using p(2) unfolding fl example_paletteFromLightness by simp
  have fg: "fg = ''silver''"
    using s5 unfolding t bg p5 example_search_foreground by (simp add: mkPattern_inject)
  have c1: "rescaled (Num (128 - 1 / 2 ^ 46)) (Num (128 - 1 / 2 ^ 46)) 128 = PInf"
    using q lt unfolding m_eq example_bytes by simp
  have c2: "rescale (Num (128 - 1 / 2 ^ 46)) (Num (128 - 1 / 2 ^ 46)) 128 = 255"
    using v lt unfolding m_eq example_bytes by simp
  have c3: "normalizeWindow ?w =
     [RGBA 255 255 255 255, RGBA 255 255 255 255, RGBA 255 255 255 255, RGBA 255 255 255 255]"
    unfolding nw' example_normalized ..
  show ?thesis
    using example_flat(1) example_validConfig wfState_freshState[of exampleConfig] w2 h
      example_lightnesses(1) example_bytes(1) c1 c2 c3 q1[unfolded t bg fg] q2[unfolded t bg fg]
    by (intro conjI) assumption+
qed

theorem normalizeWindow_flat_window_counterexample:
  "mathMax (snd (grayscalePass exampleFlatWindow)) = mathMin (snd (grayscalePass exampleFlatWindow)) \<and>
   rescaled (mathMin (snd (grayscalePass exampleFlatWindow)))
            (mathMax (snd (grayscalePass exampleFlatWindow)))
            (red (fst (grayscalePass exampleFlatWindow) ! 0)) = PInf \<and>
   normalizeWindow exampleFlatWindow =
     [RGBA 255 255 255 255, RGBA 255 255 255 255, RGBA 255 255 255 255, RGBA 255 255 255 255] \<and>
   mathMax (snd (grayscalePass exampleFlatWindow129)) = mathMin (snd (grayscalePass exampleFlatWindow129)) \<and>
   rescaled (mathMin (snd (grayscalePass exampleFlatWindow129)))
            (mathMax (snd (grayscalePass exampleFlatWindow129)))
            (red (fst (grayscalePass exampleFlatWindow129) ! 0)) = NaN \<and>
   normalizeWindow exampleFlatWindow129 =
     [RGBA 0 0 0 255, RGBA 0 0 0 255, RGBA 0 0 0 255, RGBA 0 0 0 255]"
proof -
  have b: "red (fst (grayscalePass exampleFlatWindow) ! 0) = toUint8Clamp (Num (128 - 1 / 2 ^ 46))"
          "red (fst (grayscalePass exampleFlatWindow129) ! 0) = toUint8Clamp (Num 129)"
    by (simp_all add: grayscalePass_fst exampleFlatWindow_def exampleFlatWindow129_def
          grayPixel_def lightnessOf_def luma_128 luma_129 Let_def del: toUint8Clamp.simps(4))
  have q: "rescaled (mathMin (snd (grayscalePass exampleFlatWindow)))
            (mathMax (snd (grayscalePass exampleFlatWindow)))
            (red (fst (grayscalePass exampleFlatWindow) ! 0)) = PInf"
          "rescaled (mathMin (snd (grayscalePass exampleFlatWindow129)))
            (mathMax (snd (grayscalePass exampleFlatWindow129)))
            (red (fst (grayscalePass exampleFlatWindow129) ! 0)) = NaN"
    unfolding example_lightnesses b rescaled_flat example_flat_values by simp_all
  from normalizeWindow_flat[OF example_flat(1)] obtain m where
    m: "mathMin (snd (grayscalePass exampleFlatWindow)) = Num m"
       "normalizeWindow exampleFlatWindow = flatWindow (flatValue m) exampleFlatWindow"
    by blast
  from m(1) have "m = 128 - 1 / 2 ^ 46" unfolding example_lightnesses by simp
  then have n1: "normalizeWindow exampleFlatWindow =
     [RGBA 255 255 255 255, RGBA 255 255 255 255, RGBA 255 255 255 255, RGBA 255 255 255 255]"
    using m(2) by (simp only: example_flat_values example_normalized)
  from normalizeWindow_flat[OF example_flat(2)] obtain m' where
    m': "mathMin (snd (grayscalePass exampleFlatWindow129)) = Num m'"
       "normalizeWindow exampleFlatWindow129 = flatWindow (flatValue m') exampleFlatWindow129"
    by blast
  from m'(1) have "m' = 129" unfolding example_lightnesses by simp
  then have n2: "normalizeWindow exampleFlatWindow129 =
     [RGBA 0 0 0 255, RGBA 0 0 0 255, RGBA 0 0 0 255, RGBA 0 0 0 255]"
    using m'(2) by (simp only: example_flat_values example_normalized)
  show ?thesis
    using example_flat q n1 n2 by (intro conjI) assumption+
qed

end
